theory Spec2Isabelle
  imports Main "HOL-Library.AList"
begin

section \<open>Python values shared by the models\<close>

text \<open>
  Exceptions of the Python source are values: every function that can raise returns
  \<open>py_error + 'a\<close>, with \<open>Inl\<close> for the exception.
\<close>

datatype py_error =
    KeyError string
  | TypeError
  | AttributeError
  | ValueError
  | JSONDecodeError
  | RecursionError
  | RuntimeError string
  | TimeoutError
  | OSError

section \<open>orchestrator_enhanced.py: scope validation and wave scheduling\<close>

subsection \<open>Objectives, conflicts, contracts\<close>

text \<open>
  An objective is a Python dict. The source reads \<open>wave\<close>, \<open>scope_touch\<close> and
  \<open>title\<close> with \<open>dict.get\<close> and a default in the validator, and \<open>title\<close> with
  \<open>obj['title']\<close> (a KeyError when the key is absent) in conflict resolution and in
  the contract builder. Each key is therefore optional in the model: \<open>None\<close> is an absent
  key. Values have the types of the dicts built by \<open>_decompose_into_objectives\<close>.
\<close>

record objective =
  title :: "string option"
  worker_type :: "string option"
  scope_touch :: "string list option"
  scope_forbid :: "string list option"
  wave :: "int option"

text \<open>\<open>obj.get('wave', 1)\<close>, \<open>obj.get('scope_touch', [])\<close>, \<open>obj.get('title', 'Unknown')\<close>.\<close>

definition get_wave :: "objective \<Rightarrow> int" where
  "get_wave obj = (case wave obj of None \<Rightarrow> 1 | Some w \<Rightarrow> w)"

definition get_scope_touch :: "objective \<Rightarrow> string list" where
  "get_scope_touch obj = (case scope_touch obj of None \<Rightarrow> [] | Some s \<Rightarrow> s)"

definition get_title :: "objective \<Rightarrow> string" where
  "get_title obj = (case title obj of None \<Rightarrow> ''Unknown'' | Some t \<Rightarrow> t)"

text \<open>\<open>obj['title']\<close>.\<close>

definition title_item :: "objective \<Rightarrow> py_error + string" where
  "title_item obj = (case title obj of None \<Rightarrow> Inl (KeyError ''title'') | Some t \<Rightarrow> Inr t)"

record conflict =
  conflict_wave :: int
  objective1 :: string
  objective2 :: string
  overlap :: "string list"

record validation =
  valid :: bool
  conflicts :: "conflict list"
  waves_checked :: nat
  total_objectives :: nat

record contract =
  contract_from :: string
  contract_to :: string
  description :: string

subsection \<open>Grouping by wave\<close>

text \<open>
  \<open>waves.setdefault(wave_num, []).append(obj)\<close> on a dict, which keeps its keys in the
  order of their first insertion: an association list in that order.
\<close>

fun setdefault_append :: "(int \<times> objective list) list \<Rightarrow> int \<Rightarrow> objective \<Rightarrow> (int \<times> objective list) list" where
  "setdefault_append [] k obj = [(k, [obj])]"
| "setdefault_append ((k', objs) # rest) k obj =
     (if k' = k then (k', objs @ [obj]) # rest else (k', objs) # setdefault_append rest k obj)"

definition group_by_wave :: "objective list \<Rightarrow> (int \<times> objective list) list" where
  "group_by_wave objectives = foldl (\<lambda>waves obj. setdefault_append waves (get_wave obj) obj) [] objectives"

subsection \<open>validate_scope_exclusivity\<close>

text \<open>
  \<open>overlap = scope1 & scope2\<close> and \<open>list(overlap)\<close>. Python leaves the order of
  \<open>list(set)\<close> unspecified; the model lists the common paths in the order of
  \<open>scope1\<close>, and no statement below depends on that order.
\<close>

definition scope_overlap :: "string list \<Rightarrow> string list \<Rightarrow> string list" where
  "scope_overlap scope1 scope2 = filter (\<lambda>p. p \<in> set scope2) (remdups scope1)"

text \<open>The inner loop \<open>for obj2 in wave_objs[i+1:]\<close> for a fixed \<open>obj1\<close>.\<close>

fun conflicts_with :: "int \<Rightarrow> objective \<Rightarrow> objective list \<Rightarrow> conflict list" where
  "conflicts_with wave_num obj1 [] = []"
| "conflicts_with wave_num obj1 (obj2 # rest) =
     (let ov = scope_overlap (get_scope_touch obj1) (get_scope_touch obj2)
      in (if ov \<noteq> []
          then [\<lparr>conflict_wave = wave_num, objective1 = get_title obj1,
                 objective2 = get_title obj2, overlap = ov\<rparr>]
          else []) @ conflicts_with wave_num obj1 rest)"

text \<open>The loop \<open>for i, obj1 in enumerate(wave_objs)\<close>.\<close>

fun wave_conflicts :: "int \<Rightarrow> objective list \<Rightarrow> conflict list" where
  "wave_conflicts wave_num [] = []"
| "wave_conflicts wave_num (obj1 # rest) =
     conflicts_with wave_num obj1 rest @ wave_conflicts wave_num rest"

definition validate_scope_exclusivity :: "objective list \<Rightarrow> validation" where
  "validate_scope_exclusivity objectives =
     (let waves = group_by_wave objectives;
          cs = concat (map (\<lambda>(wave_num, wave_objs). wave_conflicts wave_num wave_objs) waves)
      in \<lparr>valid = (length cs = 0), conflicts = cs,
          waves_checked = length waves, total_objectives = length objectives\<rparr>)"

subsection \<open>_assign_to_waves\<close>

text \<open>
  \<open>[waves_dict[i] for i in sorted(waves_dict.keys())]\<close>: the groups in ascending order
  of their wave number. The keys of the dict are distinct, so this is the list of
  values sorted by key.
\<close>

definition assign_to_waves :: "objective list \<Rightarrow> objective list list" where
  "assign_to_waves objectives = map snd (sort_key fst (group_by_wave objectives))"

subsection \<open>_resolve_scope_conflicts\<close>

text \<open>
  The body of the inner loop: \<open>if obj['title'] == conflict['objective2']:
  obj['wave'] = obj.get('wave', 1) + 1\<close>.
\<close>

definition defer_if_named :: "conflict \<Rightarrow> objective \<Rightarrow> py_error + objective" where
  "defer_if_named c obj =
     (case title_item obj of
        Inl e \<Rightarrow> Inl e
      | Inr t \<Rightarrow> if t = objective2 c then Inr (obj\<lparr>wave := Some (get_wave obj + 1)\<rparr>) else Inr obj)"

text \<open>\<open>for obj in objectives\<close>: the first exception ends the loop.\<close>

fun defer_all :: "conflict \<Rightarrow> objective list \<Rightarrow> py_error + objective list" where
  "defer_all c [] = Inr []"
| "defer_all c (obj # rest) =
     (case defer_if_named c obj of
        Inl e \<Rightarrow> Inl e
      | Inr obj' \<Rightarrow> (case defer_all c rest of Inl e \<Rightarrow> Inl e | Inr rest' \<Rightarrow> Inr (obj' # rest')))"

text \<open>\<open>for conflict in validation.get('conflicts', [])\<close>.\<close>

fun resolve_conflicts :: "objective list \<Rightarrow> conflict list \<Rightarrow> py_error + objective list" where
  "resolve_conflicts objectives [] = Inr objectives"
| "resolve_conflicts objectives (c # cs) =
     (case defer_all c objectives of
        Inl e \<Rightarrow> Inl e
      | Inr objectives' \<Rightarrow> resolve_conflicts objectives' cs)"

definition resolve_scope_conflicts :: "objective list \<Rightarrow> validation \<Rightarrow> py_error + objective list" where
  "resolve_scope_conflicts objectives v = resolve_conflicts objectives (conflicts v)"

subsection \<open>_define_integration_contracts\<close>

text \<open>
  The dict literal evaluates \<open>obj1['title']\<close> first, then \<open>obj2['title']\<close>; the
  description is the f-string \<open>"{obj2['title']} uses interfaces from {obj1['title']}"\<close>.
\<close>

definition make_contract :: "objective \<Rightarrow> objective \<Rightarrow> py_error + contract" where
  "make_contract obj1 obj2 =
     (case title_item obj1 of
        Inl e \<Rightarrow> Inl e
      | Inr t1 \<Rightarrow>
          (case title_item obj2 of
             Inl e \<Rightarrow> Inl e
           | Inr t2 \<Rightarrow> Inr \<lparr>contract_from = t1, contract_to = t2,
                            description = t2 @ '' uses interfaces from '' @ t1\<rparr>))"

text \<open>The inner loop \<open>for obj2 in objectives[i+1:]\<close>, appending to \<open>contracts\<close>.\<close>

fun contracts_from :: "objective \<Rightarrow> objective list \<Rightarrow> py_error + contract list" where
  "contracts_from obj1 [] = Inr []"
| "contracts_from obj1 (obj2 # rest) =
     (if get_wave obj2 > get_wave obj1
      then (case make_contract obj1 obj2 of
              Inl e \<Rightarrow> Inl e
            | Inr c \<Rightarrow> (case contracts_from obj1 rest of Inl e \<Rightarrow> Inl e | Inr cs \<Rightarrow> Inr (c # cs)))
      else contracts_from obj1 rest)"

fun define_integration_contracts :: "objective list \<Rightarrow> py_error + contract list" where
  "define_integration_contracts [] = Inr []"
| "define_integration_contracts (obj1 # rest) =
     (case contracts_from obj1 rest of
        Inl e \<Rightarrow> Inl e
      | Inr cs \<Rightarrow> (case define_integration_contracts rest of
                    Inl e \<Rightarrow> Inl e
                  | Inr cs' \<Rightarrow> Inr (cs @ cs')))"

subsection \<open>_decompose_into_objectives and run_planning_phase\<close>

datatype task_type = RESET | FEATURE | BUG | REFACTOR | ENHANCEMENT

text \<open>\<open>task_type.value.title()\<close>.\<close>

fun task_type_title :: "task_type \<Rightarrow> string" where
  "task_type_title RESET = ''Reset''"
| "task_type_title FEATURE = ''Feature''"
| "task_type_title BUG = ''Bug''"
| "task_type_title REFACTOR = ''Refactor''"
| "task_type_title ENHANCEMENT = ''Enhancement''"

text \<open>The fields of AnalysisReport that the planning phase reads.\<close>

record analysis_report =
  report_id :: string
  owner_request :: string
  report_task_type :: task_type

text \<open>\<open>team.json\<close> as loaded: the key \<open>global_forbid\<close> may be absent.\<close>

record team_config =
  cfg_global_forbid :: "string list option"

definition config_global_forbid :: "team_config \<Rightarrow> string list" where
  "config_global_forbid tc = (case cfg_global_forbid tc of None \<Rightarrow> [] | Some g \<Rightarrow> g)"

definition decompose_into_objectives :: "team_config \<Rightarrow> analysis_report \<Rightarrow> objective list" where
  "decompose_into_objectives tc analysis =
     (if report_task_type analysis = RESET
      then [\<lparr>title = Some ''RESET: Core module refactoring'', worker_type = Some ''claude'',
             scope_touch = Some [''src/core/''], scope_forbid = Some [''tests/'', ''src/ui/''],
             wave = Some 1\<rparr>,
            \<lparr>title = Some ''RESET: Test suite hardening'', worker_type = Some ''codex'',
             scope_touch = Some [''tests/''], scope_forbid = Some [''src/''],
             wave = Some 1\<rparr>]
      else [\<lparr>title = Some (task_type_title (report_task_type analysis) @ '': ''
                            @ take 50 (owner_request analysis)),
             worker_type = Some ''auto'',
             scope_touch = Some [''src/''], scope_forbid = Some (config_global_forbid tc),
             wave = Some 1\<rparr>])"

text \<open>
  CoordinationPlan. \<open>plan_id\<close>, \<open>timestamp\<close>, \<open>estimated_duration\<close> and
  \<open>file_path\<close> (a fresh uuid, the clock, a formatted string and the file written) are
  left out: no statement below reads them.
\<close>

record coordination_plan =
  analysis_report_id :: string
  plan_type :: task_type
  waves :: "objective list list"
  integration_contracts :: "contract list"
  scope_validation :: validation
  global_forbid :: "string list"

text \<open>
  Steps 2 to 5 of \<open>run_planning_phase\<close>, for the list of objectives that step 1
  produced. The progress events yielded on the way carry no state of their own; the
  function returns the plan of the final \<open>phase_complete\<close> event.
\<close>

definition plan_objectives :: "team_config \<Rightarrow> analysis_report \<Rightarrow> objective list \<Rightarrow> py_error + coordination_plan" where
  "plan_objectives tc analysis objectives =
     (let validation = validate_scope_exclusivity objectives
      in case (if \<not> valid validation
               then (case resolve_scope_conflicts objectives validation of
                       Inl e \<Rightarrow> Inl e
                     | Inr objectives' \<Rightarrow>
                         Inr (objectives', assign_to_waves objectives',
                              validate_scope_exclusivity objectives'))
               else Inr (objectives, assign_to_waves objectives, validation)) of
           Inl e \<Rightarrow> Inl e
         | Inr (objectives', waves', validation') \<Rightarrow>
             (case define_integration_contracts objectives' of
                Inl e \<Rightarrow> Inl e
              | Inr contracts \<Rightarrow>
                  Inr \<lparr>analysis_report_id = report_id analysis,
                       plan_type = report_task_type analysis,
                       waves = waves',
                       integration_contracts = contracts,
                       scope_validation = validation',
                       global_forbid = config_global_forbid tc\<rparr>))"

definition run_planning_phase :: "team_config \<Rightarrow> analysis_report \<Rightarrow> py_error + coordination_plan" where
  "run_planning_phase tc analysis = plan_objectives tc analysis (decompose_into_objectives tc analysis)"

section \<open>Properties of the scope validator and wave scheduler\<close>

subsection \<open>Objectives and requests used as concrete inputs\<close>

definition core_a :: objective where
  "core_a = \<lparr>title = Some ''A'', worker_type = Some ''claude'', scope_touch = Some [''src/core/''],
              scope_forbid = Some [], wave = Some 1\<rparr>"

definition core_b :: objective where
  "core_b = \<lparr>title = Some ''B'', worker_type = Some ''codex'', scope_touch = Some [''src/core/''],
              scope_forbid = Some [], wave = Some 1\<rparr>"

definition core_c :: objective where
  "core_c = \<lparr>title = Some ''C'', worker_type = Some ''cursor'', scope_touch = Some [''src/core/''],
              scope_forbid = Some [], wave = Some 1\<rparr>"

definition tests_b :: objective where
  "tests_b = \<lparr>title = Some ''B'', worker_type = Some ''codex'', scope_touch = Some [''tests/''],
               scope_forbid = Some [], wave = Some 1\<rparr>"

definition docs_c :: objective where
  "docs_c = \<lparr>title = Some ''C'', worker_type = Some ''cursor'', scope_touch = Some [''docs/''],
              scope_forbid = Some [], wave = Some 1\<rparr>"

text \<open>The two objectives that \<open>_decompose_into_objectives\<close> returns for a RESET request.\<close>

definition reset_core :: objective where
  "reset_core = \<lparr>title = Some ''RESET: Core module refactoring'', worker_type = Some ''claude'',
                  scope_touch = Some [''src/core/''], scope_forbid = Some [''tests/'', ''src/ui/''],
                  wave = Some 1\<rparr>"

definition reset_tests :: objective where
  "reset_tests = \<lparr>title = Some ''RESET: Test suite hardening'', worker_type = Some ''codex'',
                   scope_touch = Some [''tests/''], scope_forbid = Some [''src/''],
                   wave = Some 1\<rparr>"

definition feature_request :: analysis_report where
  "feature_request = \<lparr>report_id = ''r1'', owner_request = ''Add login'', report_task_type = FEATURE\<rparr>"

definition reset_request :: analysis_report where
  "reset_request = \<lparr>report_id = ''r2'', owner_request = ''reset the code base'', report_task_type = RESET\<rparr>"

lemmas obj_defs = core_a_def core_b_def core_c_def docs_c_def tests_b_def

lemmas eval_defs = validate_scope_exclusivity_def group_by_wave_def get_wave_def get_scope_touch_def
  get_title_def scope_overlap_def resolve_scope_conflicts_def defer_if_named_def title_item_def
  assign_to_waves_def make_contract_def

subsection \<open>The validator\<close>

lemma set_scope_overlap: "set (scope_overlap s1 s2) = set s1 \<inter> set s2"
  by (auto simp: scope_overlap_def)

lemma valid_iff_no_conflicts:
  "valid (validate_scope_exclusivity objs) \<longleftrightarrow> conflicts (validate_scope_exclusivity objs) = []"
  by (simp add: validate_scope_exclusivity_def Let_def)

text \<open>
  Claim C7. Running the validator on a list of objectives that it reports as valid yields
  zero conflicts, and conflict resolution on that validation result returns the list
  unchanged (so every wave number is unchanged and no KeyError is raised either, since
  the loop over the conflicts runs zero times).
\<close>

theorem valid_plan_unchanged:
  "valid (validate_scope_exclusivity objs) \<Longrightarrow>
     conflicts (validate_scope_exclusivity objs) = [] \<and>
     resolve_scope_conflicts objs (validate_scope_exclusivity objs) = Inr objs"
  by (simp add: valid_iff_no_conflicts resolve_scope_conflicts_def)

theorem valid_plan_unchanged_witness:
  "valid (validate_scope_exclusivity [core_a, tests_b, docs_c]) \<and>
   conflicts (validate_scope_exclusivity [core_a, tests_b, docs_c]) = [] \<and>
   resolve_scope_conflicts [core_a, tests_b, docs_c]
       (validate_scope_exclusivity [core_a, tests_b, docs_c])
     = Inr [core_a, tests_b, docs_c]"
proof -
  have h: "valid (validate_scope_exclusivity [core_a, tests_b, docs_c])"
    by (simp add: eval_defs Let_def obj_defs)
  from valid_plan_unchanged[OF h] h show ?thesis by simp
qed

subsection \<open>Conflict resolution\<close>

text \<open>
  How often the title of an objective is the second name of a recorded conflict, and
  the objective moved that many waves later.
\<close>

definition times_named_second :: "conflict list \<Rightarrow> objective \<Rightarrow> nat" where
  "times_named_second cs obj = length (filter (\<lambda>c. title obj = Some (objective2 c)) cs)"

definition deferred :: "nat \<Rightarrow> objective \<Rightarrow> objective" where
  "deferred k obj = (if k = 0 then obj else obj\<lparr>wave := Some (get_wave obj + int k)\<rparr>)"

lemma defer_if_named_Inr:
  "defer_if_named c obj = Inr obj' \<Longrightarrow>
     obj' = (if title obj = Some (objective2 c) then obj\<lparr>wave := Some (get_wave obj + 1)\<rparr> else obj)"
  by (auto simp: defer_if_named_def title_item_def split: option.splits if_splits)

lemma defer_all_Inr:
  "defer_all c objs = Inr objs' \<Longrightarrow>
     objs' = map (\<lambda>obj. if title obj = Some (objective2 c)
                         then obj\<lparr>wave := Some (get_wave obj + 1)\<rparr> else obj) objs"
proof (induction objs arbitrary: objs')
  case Nil
  then show ?case by simp
next
  case (Cons obj rest)
  then show ?case
    by (auto split: sum.splits dest: defer_if_named_Inr)
qed

lemma title_deferred: "title (deferred k obj) = title obj"
  by (simp add: deferred_def)

lemma deferred_deferred:
  "deferred k (deferred (Suc 0) obj) = deferred (Suc k) obj"
  by (simp add: deferred_def get_wave_def)

lemma resolve_conflicts_Inr:
  "resolve_conflicts objs cs = Inr objs' \<Longrightarrow>
     objs' = map (\<lambda>obj. deferred (times_named_second cs obj) obj) objs"
proof (induction cs arbitrary: objs)
  case Nil
  then show ?case by (simp add: times_named_second_def deferred_def)
next
  case (Cons c cs)
  from Cons.prems obtain objs1 where d: "defer_all c objs = Inr objs1"
    and r: "resolve_conflicts objs1 cs = Inr objs'"
    by (auto split: sum.splits)
  have o1: "objs1 = map (\<lambda>obj. if title obj = Some (objective2 c) then deferred 1 obj else obj) objs"
    using defer_all_Inr[OF d] by (simp add: deferred_def)
  have "objs' = map (\<lambda>obj. deferred (times_named_second cs obj) obj) objs1"
    using Cons.IH[OF r] .
  also have "\<dots> = map (\<lambda>obj. deferred (times_named_second (c # cs) obj) obj) objs"
    unfolding o1 map_map
  proof (rule map_cong[OF refl])
    fix obj assume "obj \<in> set objs"
    show "((\<lambda>obj. deferred (times_named_second cs obj) obj) \<circ>
            (\<lambda>obj. if title obj = Some (objective2 c) then deferred 1 obj else obj)) obj
          = deferred (times_named_second (c # cs) obj) obj"
      by (simp add: times_named_second_def title_deferred deferred_deferred)
  qed
  finally show ?case .
qed

text \<open>Resolution raises the KeyError of \<open>obj['title']\<close> only for an objective without a title.\<close>

lemma defer_all_titled:
  "\<forall>obj\<in>set objs. title obj \<noteq> None \<Longrightarrow> \<exists>objs'. defer_all c objs = Inr objs'"
  by (induction objs) (auto simp: defer_if_named_def title_item_def split: option.splits)

lemma defer_all_titles:
  "defer_all c objs = Inr objs' \<Longrightarrow> map title objs' = map title objs"
  by (drule defer_all_Inr) simp

lemma resolve_conflicts_titled:
  "\<forall>obj\<in>set objs. title obj \<noteq> None \<Longrightarrow> \<exists>objs'. resolve_conflicts objs cs = Inr objs'"
proof (induction cs arbitrary: objs)
  case Nil
  then show ?case by simp
next
  case (Cons c cs)
  from defer_all_titled[OF Cons.prems] obtain objs1 where d: "defer_all c objs = Inr objs1" by blast
  have "map title objs1 = map title objs" using defer_all_titles[OF d] .
  then have "set (map title objs1) = set (map title objs)" by simp
  with Cons.prems have "\<forall>obj\<in>set objs1. title obj \<noteq> None"
    by (metis (no_types, lifting) image_iff list.set_map)
  from Cons.IH[OF this] d show ?case by simp
qed

text \<open>End-to-end scenario A of the specification, for two objectives with different titles.\<close>

lemma scenario_a:
  assumes "title o1 = Some t1" "title o2 = Some t2" "t1 \<noteq> t2"
    "get_wave o1 = 1" "get_wave o2 = 1"
    "get_scope_touch o1 = [''src/core/'']" "get_scope_touch o2 = [''src/core/'']"
  shows "conflicts (validate_scope_exclusivity [o1, o2]) =
           [\<lparr>conflict_wave = 1, objective1 = t1, objective2 = t2, overlap = [''src/core/'']\<rparr>]"
    and "resolve_scope_conflicts [o1, o2] (validate_scope_exclusivity [o1, o2])
           = Inr [o1, o2\<lparr>wave := Some 2\<rparr>]"
    and "validate_scope_exclusivity [o1, o2\<lparr>wave := Some 2\<rparr>]
           = \<lparr>valid = True, conflicts = [], waves_checked = 2, total_objectives = 2\<rparr>"
proof -
  show c: "conflicts (validate_scope_exclusivity [o1, o2]) =
           [\<lparr>conflict_wave = 1, objective1 = t1, objective2 = t2, overlap = [''src/core/'']\<rparr>]"
    using assms
    by (simp add: validate_scope_exclusivity_def group_by_wave_def scope_overlap_def get_title_def)
  show "resolve_scope_conflicts [o1, o2] (validate_scope_exclusivity [o1, o2])
          = Inr [o1, o2\<lparr>wave := Some 2\<rparr>]"
    using assms by (simp add: resolve_scope_conflicts_def c defer_if_named_def title_item_def)
  have "get_wave (o2\<lparr>wave := Some 2\<rparr>) = 2" by (simp add: get_wave_def)
  then show "validate_scope_exclusivity [o1, o2\<lparr>wave := Some 2\<rparr>]
          = \<lparr>valid = True, conflicts = [], waves_checked = 2, total_objectives = 2\<rparr>"
    using assms by (simp add: validate_scope_exclusivity_def group_by_wave_def)
qed

text \<open>\<open>run_planning_phase\<close> validates once more after a resolution pass, and only once.\<close>

lemma plan_objectives_revalidates:
  assumes "\<not> valid (validate_scope_exclusivity objs)" "plan_objectives tc a objs = Inr plan"
  shows "\<exists>objs'. resolve_scope_conflicts objs (validate_scope_exclusivity objs) = Inr objs' \<and>
           scope_validation plan = validate_scope_exclusivity objs' \<and>
           waves plan = assign_to_waves objs'"
  using assms by (auto simp: plan_objectives_def Let_def split: sum.splits)

text \<open>
  Claim C2, as the code has it. Conflict resolution walks the recorded conflicts in order
  and, for each of them, adds 1 to the wave of every objective whose title equals the
  conflict's second name. Hence an objective's wave grows by the number of recorded
  conflicts that name its title second (by exactly 1 when it is named once), its title
  and scope are kept, and an objective whose title is never named second is returned
  unchanged. For two objectives with different titles, both in wave 1 and both with
  \<open>scope_touch = ["src/core/"]\<close>, the validator records exactly one conflict,
  resolution moves the second objective to wave 2, and validating again finds no
  conflict. In the planning phase, when the first validation is not valid, the plan
  carries the validation of the objectives after the resolution pass.
\<close>

theorem resolution_defers_once_per_conflict:
  "(resolve_scope_conflicts objs v = Inr objs' \<longrightarrow>
      length objs' = length objs \<and>
      (\<forall>i<length objs.
         get_wave (objs' ! i)
           = get_wave (objs ! i) + int (times_named_second (conflicts v) (objs ! i)) \<and>
         title (objs' ! i) = title (objs ! i) \<and>
         scope_touch (objs' ! i) = scope_touch (objs ! i) \<and>
         (times_named_second (conflicts v) (objs ! i) = 0 \<longrightarrow> objs' ! i = objs ! i)))
   \<and> (title o1 = Some t1 \<and> title o2 = Some t2 \<and> t1 \<noteq> t2 \<and>
      get_wave o1 = 1 \<and> get_wave o2 = 1 \<and>
      get_scope_touch o1 = [''src/core/''] \<and> get_scope_touch o2 = [''src/core/''] \<longrightarrow>
        conflicts (validate_scope_exclusivity [o1, o2]) =
          [\<lparr>conflict_wave = 1, objective1 = t1, objective2 = t2, overlap = [''src/core/'']\<rparr>] \<and>
        resolve_scope_conflicts [o1, o2] (validate_scope_exclusivity [o1, o2])
          = Inr [o1, o2\<lparr>wave := Some 2\<rparr>] \<and>
        conflicts (validate_scope_exclusivity [o1, o2\<lparr>wave := Some 2\<rparr>]) = [])
   \<and> (\<not> valid (validate_scope_exclusivity objs) \<and> plan_objectives tc a objs = Inr plan \<longrightarrow>
        (\<exists>objs2. resolve_scope_conflicts objs (validate_scope_exclusivity objs) = Inr objs2 \<and>
           scope_validation plan = validate_scope_exclusivity objs2 \<and>
           waves plan = assign_to_waves objs2))"
proof (intro conjI impI)
  assume r: "resolve_scope_conflicts objs v = Inr objs'"
  then have e: "objs' = map (\<lambda>obj. deferred (times_named_second (conflicts v) obj) obj) objs"
    by (simp add: resolve_scope_conflicts_def resolve_conflicts_Inr)
  show "length objs' = length objs" by (simp add: e)
  show "\<forall>i<length objs.
         get_wave (objs' ! i)
           = get_wave (objs ! i) + int (times_named_second (conflicts v) (objs ! i)) \<and>
         title (objs' ! i) = title (objs ! i) \<and>
         scope_touch (objs' ! i) = scope_touch (objs ! i) \<and>
         (times_named_second (conflicts v) (objs ! i) = 0 \<longrightarrow> objs' ! i = objs ! i)"
    by (simp add: e deferred_def get_wave_def)
next
  assume a: "title o1 = Some t1 \<and> title o2 = Some t2 \<and> t1 \<noteq> t2 \<and>
      get_wave o1 = 1 \<and> get_wave o2 = 1 \<and>
      get_scope_touch o1 = [''src/core/''] \<and> get_scope_touch o2 = [''src/core/'']"
  then show "conflicts (validate_scope_exclusivity [o1, o2]) =
          [\<lparr>conflict_wave = 1, objective1 = t1, objective2 = t2, overlap = [''src/core/'']\<rparr>]"
    by (simp add: scenario_a(1))
  from a show "resolve_scope_conflicts [o1, o2] (validate_scope_exclusivity [o1, o2])
          = Inr [o1, o2\<lparr>wave := Some 2\<rparr>]"
    by (simp add: scenario_a(2))
  from a have "validate_scope_exclusivity [o1, o2\<lparr>wave := Some 2\<rparr>]
          = \<lparr>valid = True, conflicts = [], waves_checked = 2, total_objectives = 2\<rparr>"
    by (intro scenario_a(3)) auto
  then show "conflicts (validate_scope_exclusivity [o1, o2\<lparr>wave := Some 2\<rparr>]) = []" by simp
next
  assume "\<not> valid (validate_scope_exclusivity objs) \<and> plan_objectives tc a objs = Inr plan"
  then show "\<exists>objs2. resolve_scope_conflicts objs (validate_scope_exclusivity objs) = Inr objs2 \<and>
           scope_validation plan = validate_scope_exclusivity objs2 \<and>
           waves plan = assign_to_waves objs2"
    using plan_objectives_revalidates by blast
qed

theorem resolution_defers_once_per_conflict_witness:
  "resolve_scope_conflicts [core_a, core_b] (validate_scope_exclusivity [core_a, core_b])
      = Inr [core_a, core_b\<lparr>wave := Some 2\<rparr>] \<and>
   times_named_second (conflicts (validate_scope_exclusivity [core_a, core_b])) core_a = 0 \<and>
   times_named_second (conflicts (validate_scope_exclusivity [core_a, core_b])) core_b = 1 \<and>
   get_wave (core_b\<lparr>wave := Some 2\<rparr>) = get_wave core_b + 1 \<and>
   conflicts (validate_scope_exclusivity [core_a, core_b]) =
      [\<lparr>conflict_wave = 1, objective1 = ''A'', objective2 = ''B'', overlap = [''src/core/'']\<rparr>] \<and>
   conflicts (validate_scope_exclusivity [core_a, core_b\<lparr>wave := Some 2\<rparr>]) = [] \<and>
   \<not> valid (validate_scope_exclusivity [core_a, core_b]) \<and>
   plan_objectives \<lparr>cfg_global_forbid = None\<rparr> feature_request [core_a, core_b] =
     Inr \<lparr>analysis_report_id = ''r1'', plan_type = FEATURE,
          waves = [[core_a], [core_b\<lparr>wave := Some 2\<rparr>]],
          integration_contracts = [\<lparr>contract_from = ''A'', contract_to = ''B'',
                                    description = ''B uses interfaces from A''\<rparr>],
          scope_validation = validate_scope_exclusivity [core_a, core_b\<lparr>wave := Some 2\<rparr>],
          global_forbid = []\<rparr>"
proof -
  have s: "title core_a = Some ''A'' \<and> title core_b = Some ''B'' \<and> ''A'' \<noteq> ''B'' \<and>
      get_wave core_a = 1 \<and> get_wave core_b = 1 \<and>
      get_scope_touch core_a = [''src/core/''] \<and> get_scope_touch core_b = [''src/core/'']"
    by (simp add: obj_defs get_wave_def get_scope_touch_def)
  note t = resolution_defers_once_per_conflict[where objs = "[core_a, core_b]"
      and v = "validate_scope_exclusivity [core_a, core_b]"
      and objs' = "[core_a, core_b\<lparr>wave := Some 2\<rparr>]" and ?o1.0 = core_a and ?o2.0 = core_b
      and ?t1.0 = "''A''" and ?t2.0 = "''B''" and tc = "\<lparr>cfg_global_forbid = None\<rparr>"
      and a = feature_request]
  from t s have c: "conflicts (validate_scope_exclusivity [core_a, core_b]) =
      [\<lparr>conflict_wave = 1, objective1 = ''A'', objective2 = ''B'', overlap = [''src/core/'']\<rparr>]"
    and r: "resolve_scope_conflicts [core_a, core_b] (validate_scope_exclusivity [core_a, core_b])
      = Inr [core_a, core_b\<lparr>wave := Some 2\<rparr>]"
    and c2: "conflicts (validate_scope_exclusivity [core_a, core_b\<lparr>wave := Some 2\<rparr>]) = []"
    by blast+
  from t r have "\<forall>i<length [core_a, core_b].
      get_wave ([core_a, core_b\<lparr>wave := Some 2\<rparr>] ! i) = get_wave ([core_a, core_b] ! i) +
        int (times_named_second (conflicts (validate_scope_exclusivity [core_a, core_b]))
               ([core_a, core_b] ! i))"
    by blast
  from this[rule_format, of 1]
  have w: "get_wave (core_b\<lparr>wave := Some 2\<rparr>) = get_wave core_b +
      int (times_named_second (conflicts (validate_scope_exclusivity [core_a, core_b])) core_b)"
    by simp
  have n: "times_named_second (conflicts (validate_scope_exclusivity [core_a, core_b])) core_a = 0"
      "times_named_second (conflicts (validate_scope_exclusivity [core_a, core_b])) core_b = 1"
    unfolding times_named_second_def c by (simp_all add: obj_defs)
  have nv: "\<not> valid (validate_scope_exclusivity [core_a, core_b])"
    by (simp add: valid_iff_no_conflicts c)
  have p: "plan_objectives \<lparr>cfg_global_forbid = None\<rparr> feature_request [core_a, core_b] =
     Inr \<lparr>analysis_report_id = ''r1'', plan_type = FEATURE,
          waves = [[core_a], [core_b\<lparr>wave := Some 2\<rparr>]],
          integration_contracts = [\<lparr>contract_from = ''A'', contract_to = ''B'',
                                    description = ''B uses interfaces from A''\<rparr>],
          scope_validation = validate_scope_exclusivity [core_a, core_b\<lparr>wave := Some 2\<rparr>],
          global_forbid = []\<rparr>"
    by (simp add: plan_objectives_def eval_defs Let_def obj_defs feature_request_def
        config_global_forbid_def)
  from c r c2 w n nv p show ?thesis by simp
qed

text \<open>
  Claim C2 as stated fails twice. With three objectives that overlap pairwise in wave 1,
  the third is the second name of two recorded conflicts and moves from wave 1 to wave
  3, not to wave 2. With two objectives that share their title, both are moved to wave 2
  (the first-named one too), and validating again still finds their conflict.
\<close>

theorem resolution_defers_twice:
  "conflicts (validate_scope_exclusivity [core_a, core_b, core_c]) =
     [\<lparr>conflict_wave = 1, objective1 = ''A'', objective2 = ''B'', overlap = [''src/core/'']\<rparr>,
      \<lparr>conflict_wave = 1, objective1 = ''A'', objective2 = ''C'', overlap = [''src/core/'']\<rparr>,
      \<lparr>conflict_wave = 1, objective1 = ''B'', objective2 = ''C'', overlap = [''src/core/'']\<rparr>] \<and>
   resolve_scope_conflicts [core_a, core_b, core_c]
       (validate_scope_exclusivity [core_a, core_b, core_c])
     = Inr [core_a, core_b\<lparr>wave := Some 2\<rparr>, core_c\<lparr>wave := Some 3\<rparr>] \<and>
   get_wave (core_c\<lparr>wave := Some 3\<rparr>) = get_wave core_c + 2 \<and>
   conflicts (validate_scope_exclusivity [core_a, core_a\<lparr>worker_type := Some ''codex''\<rparr>]) =
     [\<lparr>conflict_wave = 1, objective1 = ''A'', objective2 = ''A'', overlap = [''src/core/'']\<rparr>] \<and>
   resolve_scope_conflicts [core_a, core_a\<lparr>worker_type := Some ''codex''\<rparr>]
       (validate_scope_exclusivity [core_a, core_a\<lparr>worker_type := Some ''codex''\<rparr>])
     = Inr [core_a\<lparr>wave := Some 2\<rparr>, core_a\<lparr>worker_type := Some ''codex'', wave := Some 2\<rparr>] \<and>
   conflicts (validate_scope_exclusivity
       [core_a\<lparr>wave := Some 2\<rparr>, core_a\<lparr>worker_type := Some ''codex'', wave := Some 2\<rparr>]) =
     [\<lparr>conflict_wave = 2, objective1 = ''A'', objective2 = ''A'', overlap = [''src/core/'']\<rparr>]"
  by (simp add: eval_defs Let_def obj_defs)

subsection \<open>Integration contracts\<close>

lemma finite_ordered_pairs:
  "finite {(i, j). i < j \<and> j < (n::nat) \<and> Q i j}" (is "finite ?T")
proof -
  have "?T \<subseteq> {..<n} \<times> {..<n::nat}" by auto
  then show ?thesis by (rule finite_subset) simp
qed

text \<open>
  The pairs of positions \<open>i < j\<close> of \<open>x # xs\<close> are the pairs \<open>(0, j + 1)\<close> and the
  shifted pairs of \<open>xs\<close>.
\<close>

lemma card_ordered_pairs_Cons:
  "card {(i, j). i < j \<and> j < length (x # xs) \<and> Q ((x # xs) ! i) ((x # xs) ! j)} =
     card {j. j < length xs \<and> Q x (xs ! j)} +
     card {(i, j). i < j \<and> j < length xs \<and> Q (xs ! i) (xs ! j)}"
  (is "card ?T = card ?A + card ?R")
proof -
  let ?f = "\<lambda>j::nat. (0::nat, Suc j)"
  let ?g = "\<lambda>(i::nat, j::nat). (Suc i, Suc j)"
  have T: "?T = ?f ` ?A \<union> ?g ` ?R"
  proof (rule set_eqI)
    fix p :: "nat \<times> nat"
    obtain i j where p: "p = (i, j)" by (cases p)
    show "p \<in> ?T \<longleftrightarrow> p \<in> ?f ` ?A \<union> ?g ` ?R"
    proof (cases i)
      case 0
      then show ?thesis unfolding p by (cases j) (auto simp: image_iff)
    next
      case (Suc i')
      then show ?thesis unfolding p by (cases j) (auto simp: image_iff)
    qed
  qed
  have fA: "finite ?A" by simp
  have fR: "finite ?R" by (rule finite_ordered_pairs)
  have disj: "?f ` ?A \<inter> ?g ` ?R = {}" by auto
  have "card ?T = card (?f ` ?A) + card (?g ` ?R)"
    unfolding T using fA fR disj by (simp add: card_Un_disjoint)
  moreover have "card (?f ` ?A) = card ?A" by (rule card_image) (simp add: inj_on_def)
  moreover have "card (?g ` ?R) = card ?R" by (rule card_image) (auto simp: inj_on_def)
  ultimately show ?thesis by simp
qed

lemma contracts_from_Inr:
  "contracts_from obj1 rest = Inr cs \<Longrightarrow>
     length (filter (\<lambda>c. contract_from c = a \<and> contract_to c = b) cs) =
     length (filter (\<lambda>obj2. title obj1 = Some a \<and> title obj2 = Some b \<and>
                             get_wave obj1 < get_wave obj2) rest)"
proof (induction rest arbitrary: cs)
  case Nil
  then show ?case by simp
next
  case (Cons obj2 rest)
  show ?case
  proof (cases "get_wave obj1 < get_wave obj2")
    case True
    with Cons.prems obtain c cs' where c: "make_contract obj1 obj2 = Inr c"
      and r: "contracts_from obj1 rest = Inr cs'" and cs: "cs = c # cs'"
      by (auto split: sum.splits)
    from c have "title obj1 = Some (contract_from c)" "title obj2 = Some (contract_to c)"
      by (auto simp: make_contract_def title_item_def split: option.splits)
    then show ?thesis using Cons.IH[OF r] True by (auto simp: cs)
  next
    case False
    then show ?thesis using Cons by simp
  qed
qed

lemma contracts_from_titled:
  "title obj1 \<noteq> None \<Longrightarrow> \<forall>obj\<in>set rest. title obj \<noteq> None \<Longrightarrow>
     \<exists>cs. contracts_from obj1 rest = Inr cs"
  by (induction rest) (auto simp: make_contract_def title_item_def split: option.splits)

lemma define_integration_contracts_titled:
  "\<forall>obj\<in>set objs. title obj \<noteq> None \<Longrightarrow> \<exists>cs. define_integration_contracts objs = Inr cs"
proof (induction objs)
  case Nil
  then show ?case by simp
next
  case (Cons obj1 rest)
  then obtain cs1 cs2 where "contracts_from obj1 rest = Inr cs1"
      "define_integration_contracts rest = Inr cs2"
    using contracts_from_titled[of obj1 rest] by auto
  then show ?case by simp
qed

text \<open>
  Claim C8, as the code has it. The builder looks at the pairs of positions \<open>i < j\<close> of
  the list and records a contract from the objective at \<open>i\<close> to the objective at \<open>j\<close>
  when the later-listed one has the strictly greater wave. So for all titles \<open>a\<close> and
  \<open>b\<close>, the number of recorded contracts from \<open>a\<close> to \<open>b\<close> is the number of such pairs
  of positions with these titles: exactly one contract per pair, and none for a pair
  whose later-wave objective is listed first.
\<close>

theorem contracts_follow_list_order:
  "define_integration_contracts objs = Inr cs \<Longrightarrow>
     length (filter (\<lambda>c. contract_from c = a \<and> contract_to c = b) cs) =
     card {(i, j). i < j \<and> j < length objs \<and>
                   title (objs ! i) = Some a \<and> title (objs ! j) = Some b \<and>
                   get_wave (objs ! i) < get_wave (objs ! j)}"
proof (induction objs arbitrary: cs)
  case Nil
  then show ?case by simp
next
  case (Cons obj1 rest)
  from Cons.prems obtain cs1 cs2 where c1: "contracts_from obj1 rest = Inr cs1"
    and c2: "define_integration_contracts rest = Inr cs2" and cs: "cs = cs1 @ cs2"
    by (auto split: sum.splits)
  let ?Q = "\<lambda>x y. title x = Some a \<and> title y = Some b \<and> get_wave x < get_wave y"
  have "length (filter (\<lambda>c. contract_from c = a \<and> contract_to c = b) cs1) =
          card {j. j < length rest \<and> ?Q obj1 (rest ! j)}"
    using contracts_from_Inr[OF c1, of a b] by (simp add: length_filter_conv_card)
  moreover note Cons.IH[OF c2]
  ultimately show ?case
    unfolding cs using card_ordered_pairs_Cons[where Q = ?Q and x = obj1 and xs = rest] by simp
qed

theorem contracts_follow_list_order_witness:
  "define_integration_contracts [core_a, core_b\<lparr>wave := Some 2\<rparr>, docs_c] =
     Inr [\<lparr>contract_from = ''A'', contract_to = ''B'', description = ''B uses interfaces from A''\<rparr>] \<and>
   card {(i, j). i < j \<and> j < length [core_a, core_b\<lparr>wave := Some 2\<rparr>, docs_c] \<and>
                 title ([core_a, core_b\<lparr>wave := Some 2\<rparr>, docs_c] ! i) = Some ''A'' \<and>
                 title ([core_a, core_b\<lparr>wave := Some 2\<rparr>, docs_c] ! j) = Some ''B'' \<and>
                 get_wave ([core_a, core_b\<lparr>wave := Some 2\<rparr>, docs_c] ! i)
                   < get_wave ([core_a, core_b\<lparr>wave := Some 2\<rparr>, docs_c] ! j)} = 1"
proof -
  have d: "define_integration_contracts [core_a, core_b\<lparr>wave := Some 2\<rparr>, docs_c] =
     Inr [\<lparr>contract_from = ''A'', contract_to = ''B'', description = ''B uses interfaces from A''\<rparr>]"
    by (simp add: eval_defs Let_def obj_defs)
  from contracts_follow_list_order[OF d, of "''A''" "''B''"] d show ?thesis by simp
qed

text \<open>
  Claim C8 as stated fails. Objectives A and B conflict and C is disjoint from both;
  resolution defers B to wave 2 and leaves C, listed after B, in wave 1. C's wave is
  strictly smaller than B's, and the builder records the contract from A to B only:
  none names C and B.
\<close>

theorem no_contract_against_list_order:
  "resolve_scope_conflicts [core_a, core_b, docs_c]
       (validate_scope_exclusivity [core_a, core_b, docs_c])
     = Inr [core_a, core_b\<lparr>wave := Some 2\<rparr>, docs_c] \<and>
   get_wave docs_c < get_wave (core_b\<lparr>wave := Some 2\<rparr>) \<and>
   define_integration_contracts [core_a, core_b\<lparr>wave := Some 2\<rparr>, docs_c] =
     Inr [\<lparr>contract_from = ''A'', contract_to = ''B'', description = ''B uses interfaces from A''\<rparr>]"
  by (simp add: eval_defs Let_def obj_defs)

subsection \<open>The planning phase\<close>

lemma planning_reset_waves:
  "report_task_type a = RESET \<Longrightarrow>
     \<exists>plan. run_planning_phase tc a = Inr plan \<and> waves plan = [[reset_core, reset_tests]]"
  by (simp add: run_planning_phase_def plan_objectives_def decompose_into_objectives_def eval_defs
        reset_core_def reset_tests_def)

lemma planning_single_wave:
  "report_task_type a \<noteq> RESET \<Longrightarrow>
     \<exists>plan obj. run_planning_phase tc a = Inr plan \<and> waves plan = [[obj]]"
  by (simp add: run_planning_phase_def plan_objectives_def decompose_into_objectives_def eval_defs)

text \<open>
  Claim C1, as the code has it. The planning phase always emits a plan, and in every
  wave of the plan the \<open>scope_touch\<close> sets of two different positions are disjoint.
  (Nothing in the planning phase compares \<open>scope_touch\<close> with the global-forbid set.)
\<close>

theorem planning_waves_scope_exclusive:
  "\<exists>plan. run_planning_phase tc a = Inr plan \<and>
     (\<forall>w\<in>set (waves plan). \<forall>i j. i < j \<and> j < length w \<longrightarrow>
        set (get_scope_touch (w ! i)) \<inter> set (get_scope_touch (w ! j)) = {})"
proof (cases "report_task_type a = RESET")
  case True
  from planning_reset_waves[OF True] obtain plan where
    p: "run_planning_phase tc a = Inr plan" and w: "waves plan = [[reset_core, reset_tests]]"
    by blast
  show ?thesis
  proof (intro exI conjI ballI)
    show "run_planning_phase tc a = Inr plan" by fact
  next
    fix wv assume "wv \<in> set (waves plan)"
    then have wv: "wv = [reset_core, reset_tests]" by (simp add: w)
    show "\<forall>i j. i < j \<and> j < length wv \<longrightarrow>
            set (get_scope_touch (wv ! i)) \<inter> set (get_scope_touch (wv ! j)) = {}"
    proof (intro allI impI)
      fix i j assume "i < j \<and> j < length wv"
      then have "i = 0" "j = 1" by (auto simp: wv)
      then show "set (get_scope_touch (wv ! i)) \<inter> set (get_scope_touch (wv ! j)) = {}"
        by (simp add: wv reset_core_def reset_tests_def get_scope_touch_def)
    qed
  qed
next
  case False
  from planning_single_wave[OF False] obtain plan obj where
    "run_planning_phase tc a = Inr plan" "waves plan = [[obj]]" by blast
  then show ?thesis by simp
qed

theorem planning_waves_scope_exclusive_witness:
  "run_planning_phase \<lparr>cfg_global_forbid = None\<rparr> reset_request =
     Inr \<lparr>analysis_report_id = ''r2'', plan_type = RESET, waves = [[reset_core, reset_tests]],
          integration_contracts = [],
          scope_validation = \<lparr>valid = True, conflicts = [], waves_checked = 1,
                               total_objectives = 2\<rparr>,
          global_forbid = []\<rparr> \<and>
   set (get_scope_touch ([reset_core, reset_tests] ! 0))
     \<inter> set (get_scope_touch ([reset_core, reset_tests] ! 1)) = {}"
proof -
  have p: "run_planning_phase \<lparr>cfg_global_forbid = None\<rparr> reset_request =
     Inr \<lparr>analysis_report_id = ''r2'', plan_type = RESET, waves = [[reset_core, reset_tests]],
          integration_contracts = [],
          scope_validation = \<lparr>valid = True, conflicts = [], waves_checked = 1,
                               total_objectives = 2\<rparr>,
          global_forbid = []\<rparr>"
    by (simp add: run_planning_phase_def plan_objectives_def decompose_into_objectives_def
        eval_defs reset_core_def reset_tests_def reset_request_def config_global_forbid_def)
  from planning_waves_scope_exclusive[of "\<lparr>cfg_global_forbid = None\<rparr>" reset_request] p
  have "\<forall>i j. i < j \<and> j < length [reset_core, reset_tests] \<longrightarrow>
     set (get_scope_touch ([reset_core, reset_tests] ! i))
       \<inter> set (get_scope_touch ([reset_core, reset_tests] ! j)) = {}"
    by simp
  then have "set (get_scope_touch ([reset_core, reset_tests] ! 0))
     \<inter> set (get_scope_touch ([reset_core, reset_tests] ! 1)) = {}"
    by (metis One_nat_def Suc_1 length_Cons lessI list.size(3) zero_less_one)
  with p show ?thesis by simp
qed

text \<open>
  Claim C1 as stated fails in its second half. With \<open>"global_forbid": ["src/"]\<close> in the
  team configuration and a FEATURE request, the plan has the single objective with
  \<open>scope_touch = ["src/"]\<close>, and \<open>src/\<close> is in the plan's global-forbid set.
\<close>

theorem planning_touches_global_forbid:
  "run_planning_phase \<lparr>cfg_global_forbid = Some [''src/'']\<rparr> feature_request =
     Inr \<lparr>analysis_report_id = ''r1'', plan_type = FEATURE,
          waves = [[\<lparr>title = Some ''Feature: Add login'', worker_type = Some ''auto'',
                    scope_touch = Some [''src/''], scope_forbid = Some [''src/''],
                    wave = Some 1\<rparr>]],
          integration_contracts = [],
          scope_validation = \<lparr>valid = True, conflicts = [], waves_checked = 1,
                               total_objectives = 1\<rparr>,
          global_forbid = [''src/'']\<rparr> \<and>
   set (get_scope_touch \<lparr>title = Some ''Feature: Add login'', worker_type = Some ''auto'',
                         scope_touch = Some [''src/''], scope_forbid = Some [''src/''],
                         wave = Some 1\<rparr>)
     \<inter> set [''src/''] \<noteq> {}"
  by (simp add: run_planning_phase_def plan_objectives_def decompose_into_objectives_def
        eval_defs feature_request_def config_global_forbid_def)

section \<open>ap_studio_backend.py: the ConnectionManager\<close>

text \<open>
  A WebSocket is an object compared by identity: a number names it. The manager keeps,
  for each of its three channels, the list of connections in the order of their
  registration.
\<close>

type_synonym websocket = nat

record connection_manager =
  active_connections :: "string \<rightharpoonup> websocket list"

definition new_connection_manager :: connection_manager where
  "new_connection_manager =
     \<lparr>active_connections = [''brainstorm'' \<mapsto> [], ''orchestration'' \<mapsto> [], ''workers'' \<mapsto> []]\<rparr>"

text \<open>
  \<open>connect\<close>, after \<open>await websocket.accept()\<close> has returned:
  \<open>self.active_connections[channel].append(websocket)\<close>, a KeyError for a channel
  that is not a key.
\<close>

definition connect :: "connection_manager \<Rightarrow> websocket \<Rightarrow> string \<Rightarrow> py_error + connection_manager" where
  "connect cm websocket channel =
     (case active_connections cm channel of
        None \<Rightarrow> Inl (KeyError channel)
      | Some conns \<Rightarrow>
          Inr (cm\<lparr>active_connections := (active_connections cm)(channel \<mapsto> conns @ [websocket])\<rparr>))"

text \<open>\<open>list.remove\<close> removes the first occurrence.\<close>

definition disconnect :: "connection_manager \<Rightarrow> websocket \<Rightarrow> string \<Rightarrow> py_error + connection_manager" where
  "disconnect cm websocket channel =
     (case active_connections cm channel of
        None \<Rightarrow> Inl (KeyError channel)
      | Some conns \<Rightarrow>
          if websocket \<in> set conns
          then Inr (cm\<lparr>active_connections := (active_connections cm)(channel \<mapsto> remove1 websocket conns)\<rparr>)
          else Inr cm)"

text \<open>
  The first loop of \<open>broadcast\<close>. \<open>send_fails connection\<close> tells whether
  \<open>await connection.send_json(message)\<close> raises an \<open>Exception\<close> during this call;
  \<open>sent\<close> records the deliveries that succeeded, in order. The model runs the
  coroutine without interleaving other tasks at its await points.
\<close>

fun send_loop :: "(websocket \<Rightarrow> bool) \<Rightarrow> 'm \<Rightarrow> websocket list \<Rightarrow>
    (websocket \<times> 'm) list \<Rightarrow> websocket list \<Rightarrow> (websocket \<times> 'm) list \<times> websocket list" where
  "send_loop send_fails message [] sent disconnected = (sent, disconnected)"
| "send_loop send_fails message (connection # rest) sent disconnected =
     (if send_fails connection
      then send_loop send_fails message rest sent (disconnected @ [connection])
      else send_loop send_fails message rest (sent @ [(connection, message)]) disconnected)"

text \<open>The second loop: \<open>for conn in disconnected: self.disconnect(conn, channel)\<close>.\<close>

fun disconnect_all :: "connection_manager \<Rightarrow> websocket list \<Rightarrow> string \<Rightarrow> py_error + connection_manager" where
  "disconnect_all cm [] channel = Inr cm"
| "disconnect_all cm (conn # rest) channel =
     (case disconnect cm conn channel of
        Inl e \<Rightarrow> Inl e
      | Inr cm' \<Rightarrow> disconnect_all cm' rest channel)"

definition broadcast :: "(websocket \<Rightarrow> bool) \<Rightarrow> connection_manager \<Rightarrow> 'm \<Rightarrow> string \<Rightarrow>
    py_error + ((websocket \<times> 'm) list \<times> connection_manager)" where
  "broadcast send_fails cm message channel =
     (case active_connections cm channel of
        None \<Rightarrow> Inl (KeyError channel)
      | Some conns \<Rightarrow>
          (case send_loop send_fails message conns [] [] of
             (sent, disconnected) \<Rightarrow>
               (case disconnect_all cm disconnected channel of
                  Inl e \<Rightarrow> Inl e
                | Inr cm' \<Rightarrow> Inr (sent, cm'))))"

section \<open>Properties of the broadcast hub\<close>

lemma send_loop_eq:
  "send_loop f m conns sent disc =
     (sent @ map (\<lambda>c. (c, m)) (filter (\<lambda>c. \<not> f c) conns), disc @ filter f conns)"
  by (induction conns arbitrary: sent disc) auto

lemma disconnect_all_eq:
  "active_connections cm channel = Some conns \<Longrightarrow>
     disconnect_all cm ds channel =
       Inr (cm\<lparr>active_connections := (active_connections cm)(channel \<mapsto> fold remove1 ds conns)\<rparr>)"
proof (induction ds arbitrary: cm conns)
  case Nil
  then show ?case by (simp add: fun_upd_idem)
next
  case (Cons d ds)
  show ?case
  proof (cases "d \<in> set conns")
    case True
    let ?cm = "cm\<lparr>active_connections := (active_connections cm)(channel \<mapsto> remove1 d conns)\<rparr>"
    have "disconnect cm d channel = Inr ?cm" using Cons.prems True by (simp add: disconnect_def)
    moreover have "disconnect_all ?cm ds channel =
        Inr (?cm\<lparr>active_connections :=
               (active_connections ?cm)(channel \<mapsto> fold remove1 ds (remove1 d conns))\<rparr>)"
      by (rule Cons.IH) simp
    moreover have "?cm\<lparr>active_connections :=
               (active_connections ?cm)(channel \<mapsto> fold remove1 ds (remove1 d conns))\<rparr>
        = cm\<lparr>active_connections :=
               (active_connections cm)(channel \<mapsto> fold remove1 (d # ds) conns)\<rparr>"
      by simp
    ultimately show ?thesis by (simp add: fun_upd_def)
  next
    case False
    then have "disconnect cm d channel = Inr cm" using Cons.prems by (simp add: disconnect_def)
    moreover have "remove1 d conns = conns" using False by (simp add: remove1_idem)
    ultimately show ?thesis using Cons.IH[OF Cons.prems] by simp
  qed
qed

lemma fold_remove1_failing:
  "\<forall>z\<in>set zs. \<not> f z \<Longrightarrow> fold remove1 (filter f ys) (zs @ ys) = zs @ filter (\<lambda>c. \<not> f c) ys"
proof (induction ys arbitrary: zs)
  case Nil
  then show ?case by simp
next
  case (Cons y ys)
  show ?case
  proof (cases "f y")
    case True
    with Cons.prems have "y \<notin> set zs" by auto
    then have "remove1 y (zs @ y # ys) = zs @ ys" by (simp add: remove1_append)
    with True Cons.IH[OF Cons.prems] show ?thesis by simp
  next
    case False
    with Cons.prems have "\<forall>z\<in>set (zs @ [y]). \<not> f z" by auto
    from Cons.IH[OF this] False show ?thesis by simp
  qed
qed

text \<open>
  Claim C6. On a registered channel, whatever subset of the subscribers fails to
  receive, \<open>broadcast\<close> raises nothing, delivers the message to every subscriber
  whose send succeeds (in registration order), and leaves exactly those subscribers
  registered on the channel: each failing subscriber is removed. The other channels
  are unchanged.
\<close>

theorem broadcast_delivers_to_healthy:
  "active_connections cm channel = Some conns \<Longrightarrow>
     broadcast send_fails cm message channel =
       Inr (map (\<lambda>c. (c, message)) (filter (\<lambda>c. \<not> send_fails c) conns),
            cm\<lparr>active_connections :=
                 (active_connections cm)(channel \<mapsto> filter (\<lambda>c. \<not> send_fails c) conns)\<rparr>)"
  using fold_remove1_failing[of "[]" send_fails conns]
  by (simp add: broadcast_def send_loop_eq disconnect_all_eq)

definition three_workers :: connection_manager where
  "three_workers = \<lparr>active_connections = [''brainstorm'' \<mapsto> [7], ''orchestration'' \<mapsto> [], ''workers'' \<mapsto> [1, 2, 3]]\<rparr>"

theorem broadcast_delivers_to_healthy_witness:
  "active_connections three_workers ''workers'' = Some [1, 2, 3] \<and>
   broadcast (\<lambda>c. c = 2) three_workers ''tick'' ''workers'' =
     Inr ([(1, ''tick''), (3, ''tick'')],
          three_workers\<lparr>active_connections := (active_connections three_workers)(''workers'' \<mapsto> [1, 3])\<rparr>)"
proof -
  have h: "active_connections three_workers ''workers'' = Some [1, 2, 3]"
    by (simp add: three_workers_def)
  from broadcast_delivers_to_healthy[OF h, of "\<lambda>c. c = 2" "''tick''"] h show ?thesis by simp
qed

section \<open>mcp_server_stdio.py: protocol messages and the worker supervisor\<close>

subsection \<open>JSON values and text\<close>

text \<open>
  \<open>MCPMessage.to_json\<close> and \<open>MCPMessage.from_json\<close> call \<open>json.dumps\<close> and
  \<open>json.loads\<close> of the Python standard library with their default arguments, so the
  model contains both, as the library has them at those defaults.

  Text is a Python \<open>str\<close>: a list of code points, each a natural number. \<open>ustr\<close> turns
  a literal of this theory into such a list.

  A decoded value is one of the seven shapes below. An object is the list of its
  pairs in insertion order, as a Python dict keeps them. A float is carried by its
  lexeme: the conversion between a lexeme and a binary floating-point number is not
  modelled, and the statements below that compare values exclude floats.
\<close>

type_synonym ustring = "nat list"

definition ustr :: "string \<Rightarrow> ustring" where
  "ustr s = map of_char s"

datatype json =
    JNull
  | JBool bool
  | JInt int
  | JFloat ustring
  | JString ustring
  | JArray "json list"
  | JObject "(ustring \<times> json) list"

subsection \<open>json.dumps\<close>

text \<open>
  The encoder with \<open>ensure_ascii=True\<close> and the separators \<open>", "\<close> and \<open>": "\<close>:
  a character outside printable ASCII is written as a \<open>u\<close> escape of four hexadecimal
  digits, a character above the Basic Multilingual Plane as two such escapes (a
  surrogate pair).
\<close>

definition hex_digit :: "nat \<Rightarrow> nat" where
  "hex_digit d = (if d < 10 then 48 + d else 87 + d)"

definition hex4 :: "nat \<Rightarrow> ustring" where
  "hex4 n = [hex_digit (n div 4096), hex_digit (n div 256 mod 16),
             hex_digit (n div 16 mod 16), hex_digit (n mod 16)]"

definition escape_char :: "nat \<Rightarrow> ustring" where
  "escape_char c =
     (if c = 34 then [92, 34]
      else if c = 92 then [92, 92]
      else if c = 10 then [92, 110]
      else if c = 13 then [92, 114]
      else if c = 9 then [92, 116]
      else if c = 8 then [92, 98]
      else if c = 12 then [92, 102]
      else if 32 \<le> c \<and> c \<le> 126 then [c]
      else if c < 65536 then [92, 117] @ hex4 c
      else [92, 117] @ hex4 (55296 + (c - 65536) div 1024 mod 1024)
         @ [92, 117] @ hex4 (56320 + (c - 65536) mod 1024))"

definition encode_basestring_ascii :: "ustring \<Rightarrow> ustring" where
  "encode_basestring_ascii s = [34] @ concat (map escape_char s) @ [34]"

fun digits :: "nat \<Rightarrow> ustring" where
  "digits n = (if n < 10 then [48 + n] else digits (n div 10) @ [48 + n mod 10])"

declare digits.simps [simp del]

definition int_repr :: "int \<Rightarrow> ustring" where
  "int_repr i = (if i < 0 then 45 # digits (nat (- i)) else digits (nat i))"

fun dumps :: "json \<Rightarrow> ustring"
  and dumps_items :: "json list \<Rightarrow> ustring"
  and dumps_pairs :: "(ustring \<times> json) list \<Rightarrow> ustring" where
  "dumps JNull = ustr ''null''"
| "dumps (JBool b) = (if b then ustr ''true'' else ustr ''false'')"
| "dumps (JInt i) = int_repr i"
| "dumps (JFloat lexeme) = lexeme"
| "dumps (JString s) = encode_basestring_ascii s"
| "dumps (JArray vs) = (if vs = [] then ustr ''[]'' else [91] @ dumps_items vs @ [93])"
| "dumps (JObject kvs) = (if kvs = [] then ustr ''{}'' else [123] @ dumps_pairs kvs @ [125])"
| "dumps_items [] = []"
| "dumps_items (v # vs) = (if vs = [] then dumps v else dumps v @ [44, 32] @ dumps_items vs)"
| "dumps_pairs [] = []"
| "dumps_pairs ((k, v) # kvs) =
     (if kvs = [] then encode_basestring_ascii k @ [58, 32] @ dumps v
      else encode_basestring_ascii k @ [58, 32] @ dumps v @ [44, 32] @ dumps_pairs kvs)"

subsection \<open>json.loads\<close>

text \<open>
  The decoder follows the scanner that CPython uses by default. Inside a string no
  character below 32 is accepted (\<open>strict=True\<close>); a high surrogate escape followed
  by a low surrogate escape is joined. Beside the JSON grammar the scanner accepts
  the tokens \<open>NaN\<close>, \<open>Infinity\<close> and \<open>-Infinity\<close>. A key that is repeated in an object
  keeps the position of its first occurrence and the value of its last one.
\<close>

definition is_ws :: "nat \<Rightarrow> bool" where
  "is_ws c = (c = 32 \<or> c = 9 \<or> c = 10 \<or> c = 13)"

definition skip_ws :: "ustring \<Rightarrow> ustring" where
  "skip_ws s = dropWhile is_ws s"

definition is_digit :: "nat \<Rightarrow> bool" where
  "is_digit c = (48 \<le> c \<and> c \<le> 57)"

definition hex_value :: "nat \<Rightarrow> nat option" where
  "hex_value c =
     (if 48 \<le> c \<and> c \<le> 57 then Some (c - 48)
      else if 97 \<le> c \<and> c \<le> 102 then Some (c - 87)
      else if 65 \<le> c \<and> c \<le> 70 then Some (c - 55)
      else None)"

definition decode_uXXXX :: "nat \<Rightarrow> nat \<Rightarrow> nat \<Rightarrow> nat \<Rightarrow> nat option" where
  "decode_uXXXX a b c d =
     (case (hex_value a, hex_value b, hex_value c, hex_value d) of
        (Some x, Some y, Some z, Some w) \<Rightarrow> Some (4096 * x + 256 * y + 16 * z + w)
      | _ \<Rightarrow> None)"

definition backslash :: "nat \<Rightarrow> nat option" where
  "backslash esc =
     (if esc = 34 then Some 34
      else if esc = 92 then Some 92
      else if esc = 47 then Some 47
      else if esc = 98 then Some 8
      else if esc = 102 then Some 12
      else if esc = 110 then Some 10
      else if esc = 114 then Some 13
      else if esc = 116 then Some 9
      else None)"

definition cons_char :: "nat \<Rightarrow> py_error + (ustring \<times> ustring) \<Rightarrow> py_error + (ustring \<times> ustring)" where
  "cons_char c r = (case r of Inl e \<Rightarrow> Inl e | Inr (str, rest) \<Rightarrow> Inr (c # str, rest))"

text \<open>The character denoted by the escape after a backslash, and the input after it.\<close>

definition scan_escape :: "ustring \<Rightarrow> (nat \<times> ustring) option" where
  "scan_escape s =
     (case s of
        [] \<Rightarrow> None
      | esc # s1 \<Rightarrow>
          if esc \<noteq> 117 then
            (case backslash esc of None \<Rightarrow> None | Some ch \<Rightarrow> Some (ch, s1))
          else
            (case s1 of
               a # b # c # d # s2 \<Rightarrow>
                 (case decode_uXXXX a b c d of
                    None \<Rightarrow> None
                  | Some uni \<Rightarrow>
                      if 55296 \<le> uni \<and> uni \<le> 56319 \<and> take 2 s2 = [92, 117] then
                        (case drop 2 s2 of
                           a2 # b2 # c2 # d2 # s4 \<Rightarrow>
                             (case decode_uXXXX a2 b2 c2 d2 of
                                None \<Rightarrow> None
                              | Some uni2 \<Rightarrow>
                                  if 56320 \<le> uni2 \<and> uni2 \<le> 57343
                                  then Some (65536 + ((uni - 55296) * 1024 + (uni2 - 56320)), s4)
                                  else Some (uni, s2))
                         | _ \<Rightarrow> None)
                      else Some (uni, s2))
             | _ \<Rightarrow> None))"

lemma drop_Cons_shorter: "drop n xs = a # b # c # d # ys \<Longrightarrow> length ys < length xs"
proof -
  assume "drop n xs = a # b # c # d # ys"
  then have "length (drop n xs) = length ys + 4" by simp
  then show ?thesis by simp
qed

lemma scan_escape_shorter: "scan_escape s = Some (ch, rest) \<Longrightarrow> length rest < length s"
  by (auto simp: scan_escape_def split: list.splits option.splits if_splits
      dest: drop_Cons_shorter)

function scanstring :: "ustring \<Rightarrow> py_error + (ustring \<times> ustring)" where
  "scanstring [] = Inl JSONDecodeError"
| "scanstring (c # s) =
     (if c = 34 then Inr ([], s)
      else if c = 92 then
        (case scan_escape s of
           None \<Rightarrow> Inl JSONDecodeError
         | Some (ch, rest) \<Rightarrow> cons_char ch (scanstring rest))
      else if c < 32 then Inl JSONDecodeError
      else cons_char c (scanstring s))"
  by pat_completeness auto
termination
  by (relation "measure length") (auto dest: scan_escape_shorter)

definition digits_value :: "ustring \<Rightarrow> nat" where
  "digits_value ds = foldl (\<lambda>a d. 10 * a + (d - 48)) 0 ds"

text \<open>The integer part: a single 0, or a digit from 1 to 9 followed by digits.\<close>
definition match_integer :: "ustring \<Rightarrow> (ustring \<times> ustring) option" where
  "match_integer s =
     (case s of
        [] \<Rightarrow> None
      | c # s1 \<Rightarrow>
          if c = 48 then Some ([48], s1)
          else if 49 \<le> c \<and> c \<le> 57 then Some (c # takeWhile is_digit s1, dropWhile is_digit s1)
          else None)"

text \<open>The optional fraction: a dot followed by at least one digit.\<close>
definition match_frac :: "ustring \<Rightarrow> ustring \<times> ustring" where
  "match_frac s =
     (case s of
        dot # d # s1 \<Rightarrow>
          if dot = 46 \<and> is_digit d then (dot # d # takeWhile is_digit s1, dropWhile is_digit s1)
          else ([], s)
      | _ \<Rightarrow> ([], s))"

text \<open>The optional exponent: e or E, an optional sign, at least one digit.\<close>
definition match_exp :: "ustring \<Rightarrow> ustring \<times> ustring" where
  "match_exp s =
     (case s of
        e # s1 \<Rightarrow>
          if e = 101 \<or> e = 69 then
            (case s1 of
               sg # d # s2 \<Rightarrow>
                 if (sg = 45 \<or> sg = 43) \<and> is_digit d
                 then (e # sg # d # takeWhile is_digit s2, dropWhile is_digit s2)
                 else if is_digit sg
                 then (e # sg # takeWhile is_digit (d # s2), dropWhile is_digit (d # s2))
                 else ([], s)
             | [d] \<Rightarrow> if is_digit d then ([e, d], []) else ([], s)
             | [] \<Rightarrow> ([], s))
          else ([], s)
      | [] \<Rightarrow> ([], s))"

definition match_number :: "ustring \<Rightarrow> (json \<times> ustring) option" where
  "match_number s =
     (let (sign, s0) = (case s of c # s' \<Rightarrow> if c = 45 then ([45], s') else ([], s) | [] \<Rightarrow> ([], s))
      in case match_integer s0 of
           None \<Rightarrow> None
         | Some (ds, s1) \<Rightarrow>
             (case match_frac s1 of
                (frac, s2) \<Rightarrow>
                  (case match_exp s2 of
                     (ex, s3) \<Rightarrow>
                       if frac \<noteq> [] \<or> ex \<noteq> []
                       then Some (JFloat (sign @ ds @ frac @ ex), s3)
                       else Some (JInt (if sign = [] then int (digits_value ds)
                                        else - int (digits_value ds)), s3))))"

text \<open>The dict built from the pairs of an object, in the order they were read.\<close>
definition dict_of_pairs :: "(ustring \<times> json) list \<Rightarrow> (ustring \<times> json) list" where
  "dict_of_pairs ps = foldl (\<lambda>d (k, v). AList.update k v d) [] ps"

text \<open>
  The three mutually recursive parts of the scanner: one value, the items of an array
  after \<open>[\<close>, the pairs of an object after the opening quote of the first key. The
  first argument bounds the nesting; \<open>loads\<close> starts with more than any input of its
  length needs (\<open>loads_error\<close> below: \<open>RecursionError\<close> is never the result), so the
  bound stands for no limit of the program. Python's own recursion limit and its
  limit on the number of digits of an integer literal are not modelled.
\<close>

fun scan_once :: "nat \<Rightarrow> ustring \<Rightarrow> py_error + (json \<times> ustring)"
  and array_loop :: "nat \<Rightarrow> ustring \<Rightarrow> py_error + (json list \<times> ustring)"
  and object_loop :: "nat \<Rightarrow> ustring \<Rightarrow> py_error + ((ustring \<times> json) list \<times> ustring)" where
  "scan_once 0 s = Inl RecursionError"
| "scan_once (Suc n) [] = Inl JSONDecodeError"
| "scan_once (Suc n) (c # s) =
     (if c = 34 then
        (case scanstring s of Inl e \<Rightarrow> Inl e | Inr (str, rest) \<Rightarrow> Inr (JString str, rest))
      else if c = 123 then
        (case skip_ws s of
           [] \<Rightarrow> Inl JSONDecodeError
         | c1 # s1 \<Rightarrow>
             if c1 = 125 then Inr (JObject [], s1)
             else if c1 = 34 then
               (case object_loop n s1 of
                  Inl e \<Rightarrow> Inl e
                | Inr (pairs, rest) \<Rightarrow> Inr (JObject (dict_of_pairs pairs), rest))
             else Inl JSONDecodeError)
      else if c = 91 then
        (case skip_ws s of
           [] \<Rightarrow> Inl JSONDecodeError
         | c1 # s1 \<Rightarrow>
             if c1 = 93 then Inr (JArray [], s1)
             else (case array_loop n (c1 # s1) of
                     Inl e \<Rightarrow> Inl e
                   | Inr (values, rest) \<Rightarrow> Inr (JArray values, rest)))
      else if c = 110 \<and> take 3 s = ustr ''ull'' then Inr (JNull, drop 3 s)
      else if c = 116 \<and> take 3 s = ustr ''rue'' then Inr (JBool True, drop 3 s)
      else if c = 102 \<and> take 4 s = ustr ''alse'' then Inr (JBool False, drop 4 s)
      else (case match_number (c # s) of
              Some r \<Rightarrow> Inr r
            | None \<Rightarrow>
                if c = 78 \<and> take 2 s = ustr ''aN'' then Inr (JFloat (ustr ''NaN''), drop 2 s)
                else if c = 73 \<and> take 7 s = ustr ''nfinity''
                then Inr (JFloat (ustr ''Infinity''), drop 7 s)
                else if c = 45 \<and> take 8 s = ustr ''Infinity''
                then Inr (JFloat (ustr ''-Infinity''), drop 8 s)
                else Inl JSONDecodeError))"
| "array_loop 0 s = Inl RecursionError"
| "array_loop (Suc n) s =
     (case scan_once n s of
        Inl e \<Rightarrow> Inl e
      | Inr (v, rest) \<Rightarrow>
          (case skip_ws rest of
             [] \<Rightarrow> Inl JSONDecodeError
           | c # r \<Rightarrow>
               if c = 93 then Inr ([v], r)
               else if c \<noteq> 44 then Inl JSONDecodeError
               else (case array_loop n (skip_ws r) of
                       Inl e \<Rightarrow> Inl e
                     | Inr (vs, r') \<Rightarrow> Inr (v # vs, r'))))"
| "object_loop 0 s = Inl RecursionError"
| "object_loop (Suc n) s =
     (case scanstring s of
        Inl e \<Rightarrow> Inl e
      | Inr (key, r0) \<Rightarrow>
          (case skip_ws r0 of
             [] \<Rightarrow> Inl JSONDecodeError
           | colon # r1 \<Rightarrow>
               if colon \<noteq> 58 then Inl JSONDecodeError
               else (case scan_once n (skip_ws r1) of
                       Inl e \<Rightarrow> Inl e
                     | Inr (v, r2) \<Rightarrow>
                         (case skip_ws r2 of
                            [] \<Rightarrow> Inl JSONDecodeError
                          | c # r3 \<Rightarrow>
                              if c = 125 then Inr ([(key, v)], r3)
                              else if c \<noteq> 44 then Inl JSONDecodeError
                              else (case skip_ws r3 of
                                      [] \<Rightarrow> Inl JSONDecodeError
                                    | q # r4 \<Rightarrow>
                                        if q \<noteq> 34 then Inl JSONDecodeError
                                        else (case object_loop n r4 of
                                                Inl e \<Rightarrow> Inl e
                                              | Inr (ps, r5) \<Rightarrow> Inr ((key, v) # ps, r5)))))))"

definition loads :: "ustring \<Rightarrow> py_error + json" where
  "loads s =
     (case scan_once (Suc (2 * length s)) (skip_ws s) of
        Inl e \<Rightarrow> Inl e
      | Inr (obj, rest) \<Rightarrow> if skip_ws rest \<noteq> [] then Inl JSONDecodeError else Inr obj)"

subsection \<open>MCPMessage\<close>

text \<open>
  The dataclass annotates \<open>type\<close>, \<open>id\<close> and \<open>timestamp\<close> as \<open>str\<close> and \<open>payload\<close> as a
  dict, but \<open>from_json\<close> stores whatever \<open>json.loads\<close> returned under the four keys:
  the fields are JSON values. \<open>obj['type']\<close> raises KeyError when the key is absent
  and TypeError when \<open>obj\<close> is not a dict (subscripting a list or a string with a
  string, or a number, a boolean or None with anything).
\<close>

record mcp_message =
  msg_type :: json
  msg_id :: json
  msg_timestamp :: json
  payload :: json

definition to_json :: "mcp_message \<Rightarrow> ustring" where
  "to_json m = dumps (JObject [(ustr ''type'', msg_type m), (ustr ''id'', msg_id m),
                               (ustr ''timestamp'', msg_timestamp m), (ustr ''payload'', payload m)])"

text \<open>obj[key]\<close>
definition getitem :: "json \<Rightarrow> string \<Rightarrow> py_error + json" where
  "getitem obj key =
     (case obj of
        JObject kvs \<Rightarrow> (case map_of kvs (ustr key) of None \<Rightarrow> Inl (KeyError key) | Some v \<Rightarrow> Inr v)
      | _ \<Rightarrow> Inl TypeError)"

definition message_of_dict :: "json \<Rightarrow> py_error + mcp_message" where
  "message_of_dict obj =
     (case getitem obj ''type'' of Inl e \<Rightarrow> Inl e | Inr t \<Rightarrow>
      case getitem obj ''id'' of Inl e \<Rightarrow> Inl e | Inr i \<Rightarrow>
      case getitem obj ''timestamp'' of Inl e \<Rightarrow> Inl e | Inr ts \<Rightarrow>
      case getitem obj ''payload'' of Inl e \<Rightarrow> Inl e | Inr p \<Rightarrow>
        Inr \<lparr>msg_type = t, msg_id = i, msg_timestamp = ts, payload = p\<rparr>)"

definition from_json :: "ustring \<Rightarrow> py_error + mcp_message" where
  "from_json data = (case loads data of Inl e \<Rightarrow> Inl e | Inr obj \<Rightarrow> message_of_dict obj)"

subsection \<open>Operations of Python on decoded values\<close>

text \<open>payload.get(key, default): AttributeError for a payload that is not a dict\<close>
definition dict_get :: "json \<Rightarrow> string \<Rightarrow> json \<Rightarrow> py_error + json" where
  "dict_get d key dflt =
     (case d of
        JObject kvs \<Rightarrow> Inr (case map_of kvs (ustr key) of None \<Rightarrow> dflt | Some v \<Rightarrow> v)
      | _ \<Rightarrow> Inl AttributeError)"

definition hashable :: "json \<Rightarrow> bool" where
  "hashable v = (case v of JArray _ \<Rightarrow> False | JObject _ \<Rightarrow> False | _ \<Rightarrow> True)"

text \<open>len(v)\<close>
definition has_len :: "json \<Rightarrow> bool" where
  "has_len v = (case v of JArray _ \<Rightarrow> True | JString _ \<Rightarrow> True | JObject _ \<Rightarrow> True | _ \<Rightarrow> False)"

text \<open>for x in v\<close>
definition py_iter :: "json \<Rightarrow> py_error + json list" where
  "py_iter v =
     (case v of
        JArray xs \<Rightarrow> Inr xs
      | JString s \<Rightarrow> Inr (map (\<lambda>c. JString [c]) s)
      | JObject kvs \<Rightarrow> Inr (map (\<lambda>(k, _). JString k) kvs)
      | _ \<Rightarrow> Inl TypeError)"

definition is_space :: "nat \<Rightarrow> bool" where
  "is_space c = ((9 \<le> c \<and> c \<le> 13) \<or> (28 \<le> c \<and> c \<le> 32) \<or> c = 133 \<or> c = 160 \<or> c = 5760 \<or>
                 (8192 \<le> c \<and> c \<le> 8202) \<or> c = 8232 \<or> c = 8233 \<or> c = 8239 \<or> c = 8287 \<or>
                 c = 12288)"

definition strip :: "ustring \<Rightarrow> ustring" where
  "strip s = rev (dropWhile is_space (rev (dropWhile is_space s)))"

subsection \<open>The supervisor MCPServerStdio\<close>

text \<open>
  One \<open>MCPServerStdio\<close> object. The model is sequential: a coroutine runs from one
  \<open>await\<close> to the next without another task in between, and the lines a worker writes
  are an argument of the function that reads them. \<open>process\<close> says whether the worker
  process with its pipes exists, \<open>pending_requests\<close> is \<open>None\<close> as long as the attribute
  \<open>_pending_requests\<close> was never set, \<open>stdin\<close> collects what was written to the worker,
  \<open>stdout_reader\<close> says whether the task running \<open>_read_stdout\<close> is alive, and
  \<open>broadcasts\<close> collects the calls made to the broadcaster, in order. The clock is an
  argument: \<open>now\<close> stands for \<open>datetime.now().isoformat()\<close>. The two float fields of
  \<open>WorkerMetrics\<close> (\<open>avg_task_duration\<close>, \<open>uptime_seconds\<close>) are left out.
\<close>

datatype mcp_message_type =
    INITIALIZE | EXECUTE_TASK | CANCEL_TASK | SHUTDOWN | LIST_TOOLS
  | INITIALIZED | TASK_STARTED | TOOL_USE | PROGRESS | TASK_COMPLETE | TASK_ERROR | LOG
  | TOOLS_RESPONSE

fun type_value :: "mcp_message_type \<Rightarrow> string" where
  "type_value INITIALIZE = ''initialize''"
| "type_value EXECUTE_TASK = ''execute_task''"
| "type_value CANCEL_TASK = ''cancel_task''"
| "type_value SHUTDOWN = ''shutdown''"
| "type_value LIST_TOOLS = ''list_tools''"
| "type_value INITIALIZED = ''initialized''"
| "type_value TASK_STARTED = ''task_started''"
| "type_value TOOL_USE = ''tool_use''"
| "type_value PROGRESS = ''progress''"
| "type_value TASK_COMPLETE = ''task_complete''"
| "type_value TASK_ERROR = ''task_error''"
| "type_value LOG = ''log''"
| "type_value TOOLS_RESPONSE = ''tools_response''"

record mcp_tool =
  tool_name_of :: json
  tool_description :: json
  parameters :: json
  returns :: json
  examples :: json

record worker_activity =
  activity_worker_id :: ustring
  timestamp :: json
  activity_type :: string
  tool_name :: json
  activity_description :: json
  file_path :: json
  progress :: json

record worker_metrics =
  metrics_worker_id :: ustring
  tasks_completed :: int
  tasks_failed :: int
  tools_used :: "(json \<times> int) list"
  files_modified :: "json list"

datatype broadcast_event =
    BroadcastActivity worker_activity
  | BroadcastMetrics worker_metrics
  | BroadcastTaskFailed ustring json json
  | BroadcastStartFailed ustring

datatype future = Pending | Resolved json

record supervisor =
  worker_id :: ustring
  config_worker_type :: string
  max_concurrent_tasks :: int
  process :: bool
  running :: bool
  metrics :: worker_metrics
  message_id_counter :: nat
  pending_requests :: "(ustring \<rightharpoonup> future) option"
  stdin :: "ustring list"
  stdout_reader :: bool
  broadcasts :: "broadcast_event list"

definition new_supervisor :: "ustring \<Rightarrow> string \<Rightarrow> int \<Rightarrow> supervisor" where
  "new_supervisor wid wtype conc =
     \<lparr>worker_id = wid, config_worker_type = wtype, max_concurrent_tasks = conc,
      process = False, running = False,
      metrics = \<lparr>metrics_worker_id = wid, tasks_completed = 0, tasks_failed = 0,
                 tools_used = [], files_modified = []\<rparr>,
      message_id_counter = 0, pending_requests = None, stdin = [], stdout_reader = False,
      broadcasts = []\<rparr>"

text \<open>
  \<open>_send_message\<close>: RuntimeError without a process; otherwise the counter is
  incremented and the encoded message, followed by a newline, is written to the
  worker. The write itself is taken to succeed.
\<close>

definition send_message :: "supervisor \<Rightarrow> ustring \<Rightarrow> mcp_message_type \<Rightarrow> json \<Rightarrow> supervisor \<times> py_error option" where
  "send_message self now mtype pl =
     (if \<not> process self then (self, Some (RuntimeError ''Worker process not started''))
      else
        (let counter = message_id_counter self + 1;
             message = \<lparr>msg_type = JString (ustr (type_value mtype)),
                        msg_id = JString (worker_id self @ ustr ''_'' @ digits counter),
                        msg_timestamp = JString now,
                        payload = pl\<rparr>
         in (self\<lparr>message_id_counter := counter, stdin := stdin self @ [to_json message @ [10]]\<rparr>,
             None)))"

text \<open>
  \<open>_on_activity\<close> hands the activity to the broadcaster and, when the number of
  distinct tools used is a positive multiple of ten, the metrics as well.
\<close>

definition on_activity :: "supervisor \<Rightarrow> worker_activity \<Rightarrow> supervisor" where
  "on_activity self activity =
     (let self1 = self\<lparr>broadcasts := broadcasts self @ [BroadcastActivity activity]\<rparr>;
          n = length (tools_used (metrics self1))
      in if n mod 10 = 0 \<and> n > 0
         then self1\<lparr>broadcasts := broadcasts self1 @ [BroadcastMetrics (metrics self1)]\<rparr>
         else self1)"

text \<open>for file in files: if file not in files_modified: files_modified.append(file)\<close>
fun append_new :: "json list \<Rightarrow> json list \<Rightarrow> json list" where
  "append_new modified [] = modified"
| "append_new modified (file # files) =
     (if file \<notin> set modified
      then append_new (modified @ [file]) files
      else append_new modified files)"

definition log_activity_type :: "json \<Rightarrow> string" where
  "log_activity_type log_type =
     (if log_type = JString (ustr ''debug'') then ''log''
      else if log_type = JString (ustr ''info'') then ''log''
      else if log_type = JString (ustr ''warning'') then ''warning''
      else if log_type = JString (ustr ''error'') then ''error''
      else ''log'')"

text \<open>
  \<open>_handle_message\<close>, one definition for each branch of its \<open>if/elif\<close> chain. A branch
  returns the supervisor as the branch left it and the exception it raised, if
  any: \<open>payload.get\<close> raises AttributeError when the payload is not a dict, a list or a
  dict used as a dict key raises TypeError, and so does iterating or taking the
  length of a number, a boolean or None.
\<close>

definition is_type :: "mcp_message \<Rightarrow> mcp_message_type \<Rightarrow> bool" where
  "is_type message t = (msg_type message = JString (ustr (type_value t)))"

definition on_task_started :: "supervisor \<Rightarrow> mcp_message \<Rightarrow> supervisor \<times> py_error option" where
  "on_task_started self message =
     (case dict_get (payload message) ''task_id'' JNull of
        Inl e \<Rightarrow> (self, Some e)
      | Inr task_id \<Rightarrow> (self, None))"

definition on_tool_use :: "supervisor \<Rightarrow> mcp_message \<Rightarrow> supervisor \<times> py_error option" where
  "on_tool_use self message =
     (case dict_get (payload message) ''tool'' JNull of
        Inl e \<Rightarrow> (self, Some e)
      | Inr tname \<Rightarrow>
          if \<not> hashable tname then (self, Some TypeError)
          else
            (let used = tools_used (metrics self);
                 count = (case map_of used tname of None \<Rightarrow> 0 | Some n \<Rightarrow> n);
                 self1 = self\<lparr>metrics := (metrics self)\<lparr>tools_used := AList.update tname (count + 1) used\<rparr>\<rparr>
             in case dict_get (payload message) ''description'' (JString []) of
                  Inl e \<Rightarrow> (self1, Some e)
                | Inr desc \<Rightarrow>
                    (case dict_get (payload message) ''file'' JNull of
                       Inl e \<Rightarrow> (self1, Some e)
                     | Inr file \<Rightarrow>
                         (on_activity self1
                            \<lparr>activity_worker_id = worker_id self1,
                             timestamp = msg_timestamp message,
                             activity_type = ''tool_use'', tool_name = tname,
                             activity_description = desc, file_path = file, progress = JNull\<rparr>,
                          None))))"

definition on_progress :: "supervisor \<Rightarrow> mcp_message \<Rightarrow> supervisor \<times> py_error option" where
  "on_progress self message =
     (case dict_get (payload message) ''progress'' (JInt 0) of
        Inl e \<Rightarrow> (self, Some e)
      | Inr prog \<Rightarrow>
          (case dict_get (payload message) ''message'' (JString []) of
             Inl e \<Rightarrow> (self, Some e)
           | Inr desc \<Rightarrow>
               (on_activity self
                  \<lparr>activity_worker_id = worker_id self, timestamp = msg_timestamp message,
                   activity_type = ''progress'', tool_name = JNull, activity_description = desc,
                   file_path = JNull, progress = prog\<rparr>,
                None)))"

definition on_task_complete :: "supervisor \<Rightarrow> mcp_message \<Rightarrow> supervisor \<times> py_error option" where
  "on_task_complete self message =
     (case dict_get (payload message) ''task_id'' JNull of
        Inl e \<Rightarrow> (self, Some e)
      | Inr task_id \<Rightarrow>
          (let self1 = self\<lparr>metrics := (metrics self)\<lparr>tasks_completed :=
                                 tasks_completed (metrics self) + 1\<rparr>\<rparr>
           in case dict_get (payload message) ''files_modified'' (JArray []) of
                Inl e \<Rightarrow> (self1, Some e)
              | Inr files \<Rightarrow>
                  (case py_iter files of
                     Inl e \<Rightarrow> (self1, Some e)
                   | Inr fs \<Rightarrow>
                       (self1\<lparr>metrics := (metrics self1)\<lparr>files_modified :=
                                  append_new (files_modified (metrics self1)) fs\<rparr>\<rparr>,
                        None))))"

definition on_task_error :: "supervisor \<Rightarrow> mcp_message \<Rightarrow> supervisor \<times> py_error option" where
  "on_task_error self message =
     (case dict_get (payload message) ''task_id'' JNull of
        Inl e \<Rightarrow> (self, Some e)
      | Inr task_id \<Rightarrow>
          (case dict_get (payload message) ''error'' (JString (ustr ''Unknown error'')) of
             Inl e \<Rightarrow> (self, Some e)
           | Inr err \<Rightarrow>
               (self\<lparr>metrics := (metrics self)\<lparr>tasks_failed := tasks_failed (metrics self) + 1\<rparr>,
                     broadcasts := broadcasts self
                        @ [BroadcastTaskFailed (worker_id self) task_id err]\<rparr>,
                None)))"

definition on_log :: "supervisor \<Rightarrow> mcp_message \<Rightarrow> supervisor \<times> py_error option" where
  "on_log self message =
     (case dict_get (payload message) ''level'' (JString (ustr ''info'')) of
        Inl e \<Rightarrow> (self, Some e)
      | Inr log_type \<Rightarrow>
          (case dict_get (payload message) ''message'' (JString []) of
             Inl e \<Rightarrow> (self, Some e)
           | Inr message_text \<Rightarrow>
               if \<not> hashable log_type then (self, Some TypeError)
               else
                 (on_activity self
                    \<lparr>activity_worker_id = worker_id self, timestamp = msg_timestamp message,
                     activity_type = log_activity_type log_type, tool_name = JNull,
                     activity_description = message_text, file_path = JNull, progress = JNull\<rparr>,
                  None)))"

definition on_tools_response :: "supervisor \<Rightarrow> mcp_message \<Rightarrow> supervisor \<times> py_error option" where
  "on_tools_response self message =
     (case dict_get (payload message) ''request_id'' JNull of
        Inl e \<Rightarrow> (self, Some e)
      | Inr request_id \<Rightarrow>
          (case dict_get (payload message) ''tools'' (JArray []) of
             Inl e \<Rightarrow> (self, Some e)
           | Inr tools_data \<Rightarrow>
               (case pending_requests self of
                  None \<Rightarrow> (self, None)
                | Some pending \<Rightarrow>
                    if \<not> hashable request_id then (self, Some TypeError)
                    else
                      (case request_id of
                         JString rid \<Rightarrow>
                           (case pending rid of
                              Some Pending \<Rightarrow>
                                (self\<lparr>pending_requests :=
                                         Some (pending(rid \<mapsto> Resolved tools_data))\<rparr>,
                                 if has_len tools_data then None else Some TypeError)
                            | _ \<Rightarrow> (self, None))
                       | _ \<Rightarrow> (self, None)))))"

definition handle_message :: "supervisor \<Rightarrow> mcp_message \<Rightarrow> supervisor \<times> py_error option" where
  "handle_message self message =
     (if is_type message INITIALIZED then (self, None)
      else if is_type message TASK_STARTED then on_task_started self message
      else if is_type message TOOL_USE then on_tool_use self message
      else if is_type message PROGRESS then on_progress self message
      else if is_type message TASK_COMPLETE then on_task_complete self message
      else if is_type message TASK_ERROR then on_task_error self message
      else if is_type message LOG then on_log self message
      else if is_type message TOOLS_RESPONSE then on_tools_response self message
      else (self, None))"

text \<open>
  \<open>_read_stdout\<close>. \<open>stdout_loop\<close> takes the lines that \<open>readline\<close> returns, in order; the
  empty line is the end of the stream (every line of text ends with its newline).
  The first \<open>except\<close> clause catches \<open>json.JSONDecodeError\<close> only and logs the stripped
  line; the second catches every other exception and leaves the loop. The result
  is the supervisor and the lines left unread; when the list of lines ends, the
  reader is waiting for the next one.
\<close>

definition log_line :: "supervisor \<Rightarrow> ustring \<Rightarrow> ustring \<Rightarrow> worker_activity" where
  "log_line self now line =
     \<lparr>activity_worker_id = worker_id self, timestamp = JString now, activity_type = ''log'',
      tool_name = JNull, activity_description = JString (strip line), file_path = JNull,
      progress = JNull\<rparr>"

fun stdout_loop :: "supervisor \<Rightarrow> ustring \<Rightarrow> ustring list \<Rightarrow> supervisor \<times> ustring list" where
  "stdout_loop self now [] = (self, [])"
| "stdout_loop self now (line # rest) =
     (if \<not> running self then (self\<lparr>stdout_reader := False\<rparr>, line # rest)
      else if line = [] then (self\<lparr>stdout_reader := False\<rparr>, rest)
      else (case from_json (strip line) of
              Inr message \<Rightarrow>
                (case handle_message self message of
                   (self', None) \<Rightarrow> stdout_loop self' now rest
                 | (self', Some e) \<Rightarrow> (self'\<lparr>stdout_reader := False\<rparr>, rest))
            | Inl e \<Rightarrow>
                if e = JSONDecodeError
                then stdout_loop (on_activity self (log_line self now line)) now rest
                else (self\<lparr>stdout_reader := False\<rparr>, rest)))"

definition read_stdout :: "supervisor \<Rightarrow> ustring \<Rightarrow> ustring list \<Rightarrow> supervisor \<times> ustring list" where
  "read_stdout self now lines =
     (if \<not> stdout_reader self then (self, lines)
      else if \<not> process self then (self\<lparr>stdout_reader := False\<rparr>, lines)
      else stdout_loop self now lines)"

text \<open>
  \<open>start\<close>: \<open>spawned\<close> says whether \<open>subprocess.Popen\<close> succeeded. The reader task is
  created and the INITIALIZE message is sent.
\<close>

definition start :: "supervisor \<Rightarrow> ustring \<Rightarrow> bool \<Rightarrow> supervisor \<times> py_error option" where
  "start self now spawned =
     (if \<not> spawned
      then (self\<lparr>broadcasts := broadcasts self @ [BroadcastStartFailed (worker_id self)]\<rparr>,
            Some OSError)
      else
        send_message (self\<lparr>process := True, running := True, stdout_reader := True\<rparr>) now INITIALIZE
          (JObject [(ustr ''worker_id'', JString (worker_id self)),
                    (ustr ''worker_type'', JString (ustr (config_worker_type self))),
                    (ustr ''capabilities'', JInt (max_concurrent_tasks self))]))"

text \<open>
  \<open>execute_task\<close>: the message is sent, then the coroutine sleeps for five seconds;
  \<open>inbound\<close> is what the reader task handles during the sleep. The dict returned is
  built from the task alone.
\<close>

definition execute_task :: "supervisor \<Rightarrow> ustring \<Rightarrow> json \<Rightarrow> ustring list \<Rightarrow> supervisor \<times> (py_error + json)" where
  "execute_task self now task inbound =
     (case dict_get task ''task_id'' (JString (ustr ''task_'' @ digits (message_id_counter self))) of
        Inl e \<Rightarrow> (self, Inl e)
      | Inr task_id \<Rightarrow>
          (case send_message self now EXECUTE_TASK
                  (JObject [(ustr ''task_id'', task_id), (ustr ''task'', task)]) of
             (self1, Some e) \<Rightarrow> (self1, Inl e)
           | (self1, None) \<Rightarrow>
               (let self2 = fst (read_stdout self1 now inbound)
                in case dict_get task ''scope_touch'' (JArray []) of
                     Inl e \<Rightarrow> (self2, Inl e)
                   | Inr touched \<Rightarrow>
                       (self2, Inr (JObject [(ustr ''success'', JBool True),
                                              (ustr ''task_id'', task_id),
                                              (ustr ''files_modified'', touched),
                                              (ustr ''worker_id'', JString (worker_id self2))])))))"

text \<open>
  \<open>list_tools\<close>: the future is stored under the request id and the request is sent,
  both before the \<open>try\<close>; \<open>inbound\<close> is what the reader task handles until
  \<open>asyncio.wait_for\<close> returns. A future that is still pending then is the time-out. The
  \<open>finally\<close> clause removes the entry on every path that entered the \<open>try\<close>.
\<close>

definition tool_of :: "json \<Rightarrow> py_error + mcp_tool" where
  "tool_of tool_data =
     (case dict_get tool_data ''name'' (JString (ustr ''unknown'')) of Inl e \<Rightarrow> Inl e | Inr n \<Rightarrow>
      case dict_get tool_data ''description'' (JString []) of Inl e \<Rightarrow> Inl e | Inr d \<Rightarrow>
      case dict_get tool_data ''parameters'' (JObject []) of Inl e \<Rightarrow> Inl e | Inr p \<Rightarrow>
      case dict_get tool_data ''returns'' JNull of Inl e \<Rightarrow> Inl e | Inr r \<Rightarrow>
      case dict_get tool_data ''examples'' (JArray []) of Inl e \<Rightarrow> Inl e | Inr ex \<Rightarrow>
        Inr \<lparr>tool_name_of = n, tool_description = d, parameters = p, returns = r, examples = ex\<rparr>)"

fun tools_of :: "json list \<Rightarrow> py_error + mcp_tool list" where
  "tools_of [] = Inr []"
| "tools_of (tool_data # rest) =
     (case tool_of tool_data of
        Inl e \<Rightarrow> Inl e
      | Inr t \<Rightarrow> (case tools_of rest of Inl e \<Rightarrow> Inl e | Inr ts \<Rightarrow> Inr (t # ts)))"

definition list_tools :: "supervisor \<Rightarrow> ustring \<Rightarrow> ustring list \<Rightarrow> supervisor \<times> (py_error + mcp_tool list)" where
  "list_tools self now inbound =
     (let request_id = ustr ''list_tools_'' @ digits (message_id_counter self);
          pending = (case pending_requests self of None \<Rightarrow> Map.empty | Some p \<Rightarrow> p);
          self1 = self\<lparr>pending_requests := Some (pending(request_id \<mapsto> Pending))\<rparr>
      in case send_message self1 now LIST_TOOLS (JObject [(ustr ''request_id'', JString request_id)]) of
           (self2, Some e) \<Rightarrow> (self2, Inl e)
         | (self2, None) \<Rightarrow>
             (let self3 = fst (read_stdout self2 now inbound);
                  pending3 = (case pending_requests self3 of None \<Rightarrow> Map.empty | Some p \<Rightarrow> p);
                  outcome = (case pending3 request_id of
                               Some (Resolved tools_data) \<Rightarrow>
                                 (case py_iter tools_data of
                                    Inl e \<Rightarrow> Inl e
                                  | Inr items \<Rightarrow> tools_of items)
                             | _ \<Rightarrow> Inl TimeoutError)
              in (self3\<lparr>pending_requests := Some (pending3(request_id := None))\<rparr>, outcome)))"

subsection \<open>The list files_modified\<close>

lemma append_new_extends:
  "\<exists>added. append_new xs fs = xs @ added \<and> distinct added \<and> set added = set fs - set xs"
proof (induction fs arbitrary: xs)
  case Nil
  then show ?case by simp
next
  case (Cons f fs)
  show ?case
  proof (cases "f \<in> set xs")
    case True
    from Cons.IH[of xs] obtain added where
      "append_new xs fs = xs @ added" "distinct added" "set added = set fs - set xs" by blast
    with True show ?thesis by auto
  next
    case False
    from Cons.IH[of "xs @ [f]"] obtain added where
      a: "append_new (xs @ [f]) fs = (xs @ [f]) @ added" "distinct added"
         "set added = set fs - set (xs @ [f])" by blast
    have "append_new xs (f # fs) = xs @ (f # added)" using False a(1) by simp
    moreover have "distinct (f # added)" using a(2,3) by auto
    moreover have "set (f # added) = set (f # fs) - set xs" using False a(3) by auto
    ultimately show ?thesis by blast
  qed
qed

lemma append_new_distinct: "distinct xs \<Longrightarrow> distinct (append_new xs fs)"
proof -
  assume d: "distinct xs"
  obtain added where "append_new xs fs = xs @ added" "distinct added" "set added = set fs - set xs"
    using append_new_extends by blast
  with d show ?thesis by auto
qed

lemma files_on_activity [simp]: "files_modified (metrics (on_activity self a)) = files_modified (metrics self)"
  by (simp add: on_activity_def Let_def)

lemma files_on_task_started: "files_modified (metrics (fst (on_task_started self m))) = files_modified (metrics self)"
  by (simp add: on_task_started_def split: sum.splits)
lemma files_on_tool_use: "files_modified (metrics (fst (on_tool_use self m))) = files_modified (metrics self)"
  by (simp add: on_tool_use_def Let_def split: sum.splits)
lemma files_on_progress: "files_modified (metrics (fst (on_progress self m))) = files_modified (metrics self)"
  by (simp add: on_progress_def split: sum.splits)
lemma files_on_task_error: "files_modified (metrics (fst (on_task_error self m))) = files_modified (metrics self)"
  by (simp add: on_task_error_def split: sum.splits)
lemma files_on_log: "files_modified (metrics (fst (on_log self m))) = files_modified (metrics self)"
  by (simp add: on_log_def split: sum.splits)
lemma files_on_tools_response: "files_modified (metrics (fst (on_tools_response self m))) = files_modified (metrics self)"
  by (simp add: on_tools_response_def split: sum.splits option.splits json.splits future.splits)

lemma files_on_task_complete:
  "files_modified (metrics (fst (on_task_complete self m))) =
     (case dict_get (payload m) ''files_modified'' (JArray []) of
        Inl e \<Rightarrow> files_modified (metrics self)
      | Inr files \<Rightarrow> (case py_iter files of
                       Inl e \<Rightarrow> files_modified (metrics self)
                     | Inr fs \<Rightarrow> append_new (files_modified (metrics self)) fs))"
  by (auto simp: on_task_complete_def dict_get_def Let_def split: sum.splits json.splits)

lemma handle_message_files:
  "files_modified (metrics (fst (handle_message self m))) =
     (if is_type m TASK_COMPLETE
      then files_modified (metrics (fst (on_task_complete self m)))
      else files_modified (metrics self))"
  by (simp add: handle_message_def is_type_def ustr_def files_on_task_started files_on_tool_use files_on_progress
        files_on_task_error files_on_log files_on_tools_response)

lemma handle_message_distinct:
  "distinct (files_modified (metrics self)) \<Longrightarrow>
     distinct (files_modified (metrics (fst (handle_message self m))))"
  by (simp add: handle_message_files files_on_task_complete append_new_distinct split: sum.splits)

lemma stdout_loop_distinct:
  "distinct (files_modified (metrics self)) \<Longrightarrow>
     distinct (files_modified (metrics (fst (stdout_loop self now lines))))"
proof (induction lines arbitrary: self)
  case Nil
  then show ?case by simp
next
  case (Cons line rest)
  show ?case
  proof (cases "from_json (strip line)")
    case (Inl e)
    with Cons show ?thesis by simp
  next
    case (Inr message)
    obtain self' r where h: "handle_message self message = (self', r)" by (cases "handle_message self message")
    with handle_message_distinct[OF Cons.prems, of message]
    have d: "distinct (files_modified (metrics self'))" by simp
    show ?thesis using Inr h d Cons.IH[OF d] Cons.prems by (simp split: option.splits)
  qed
qed

subsection \<open>The read loop\<close>

lemma message_of_dict_not_decode_error: "message_of_dict obj \<noteq> Inl JSONDecodeError"
  by (auto simp: message_of_dict_def getitem_def split: sum.splits json.splits option.splits)

lemma from_json_decode_error_iff:
  "from_json s = Inl JSONDecodeError \<longleftrightarrow> loads s = Inl JSONDecodeError"
  by (auto simp: from_json_def message_of_dict_not_decode_error split: sum.splits)

lemma undecodable_line_becomes_log:
  assumes "running self" "line \<noteq> []" "loads (strip line) = Inl JSONDecodeError"
  shows "stdout_loop self now (line # rest) =
           stdout_loop (on_activity self (log_line self now line)) now rest"
    and "\<exists>more. broadcasts (on_activity self (log_line self now line)) =
           broadcasts self @ BroadcastActivity (log_line self now line) # more"
    and "activity_type (log_line self now line) = ''log''"
    and "activity_description (log_line self now line) = JString (strip line)"
    and "running (on_activity self (log_line self now line))"
    and "stdout_reader (on_activity self (log_line self now line)) = stdout_reader self"
  using assms
  by (simp_all add: from_json_decode_error_iff[symmetric] on_activity_def Let_def log_line_def)

subsection \<open>Pending requests\<close>

text \<open>
  \<open>pending_at\<close> reads the pending-request map, an absent attribute being an empty
  map. A line \<open>answers\<close> a request id when it decodes to a TOOLS_RESPONSE message whose
  payload carries that id.
\<close>

definition pending_at :: "supervisor \<Rightarrow> ustring \<Rightarrow> future option" where
  "pending_at self rid = (case pending_requests self of None \<Rightarrow> None | Some p \<Rightarrow> p rid)"


lemma pending_on_activity [simp]: "pending_requests (on_activity self a) = pending_requests self"
  by (simp add: on_activity_def Let_def)

lemma running_on_activity [simp]: "running (on_activity self a) = running self"
  by (simp add: on_activity_def Let_def)






subsection \<open>What execute_task returns\<close>

lemma send_message_started:
  "process self \<Longrightarrow> \<exists>self1. send_message self now t pl = (self1, None) \<and> worker_id self1 = worker_id self"
  by (simp add: send_message_def Let_def)

lemma worker_id_on_activity [simp]: "worker_id (on_activity self a) = worker_id self"
  by (simp add: on_activity_def Let_def)

lemma execute_task_result:
  assumes "process self" "task = JObject kvs"
  shows "\<exists>task_id touched wid.
           snd (execute_task self now task inbound) =
             Inr (JObject [(ustr ''success'', JBool True), (ustr ''task_id'', task_id),
                           (ustr ''files_modified'', touched), (ustr ''worker_id'', wid)])"
  using assms
  by (simp add: execute_task_def dict_get_def send_message_def Let_def split: option.splits)

subsection \<open>The decoder inverts the encoder: strings\<close>













subsection \<open>The decoder inverts the encoder: integers\<close>

text \<open>
  The decoder reads a number as far as it extends, so an encoded integer is read back
  when the text after it does not continue a number: \<open>delimited\<close> holds of such a text.
\<close>

definition delimited :: "ustring \<Rightarrow> bool" where
  "delimited rest = (case rest of [] \<Rightarrow> True | c # _ \<Rightarrow> c = 44 \<or> c = 93 \<or> c = 125)"











subsection \<open>The decoder inverts the encoder: values\<close>



lemma dumps_items_Cons_first: "\<exists>cs. dumps_items (v # vs) = dumps v @ cs"
  by simp







lemma delimited_simps [simp]:
  "delimited []" "delimited (93 # s)" "delimited (125 # s)" "delimited (44 # s)"
  by (simp_all add: delimited_def)



























subsection \<open>The decoder fails only with JSONDecodeError\<close>

text \<open>
  Each nested value consumes at least one character, so with a bound above twice the
  length of the input the scanner never reaches the bound: the only exception of
  \<open>loads\<close> is \<open>JSONDecodeError\<close>.
\<close>

lemma length_skip_ws: "length (skip_ws s) \<le> length s"
  by (simp add: skip_ws_def length_dropWhile_le)

lemma skip_ws_Cons_shorter: "skip_ws s = c # r \<Longrightarrow> length r < length s"
  using length_skip_ws[of s] by simp

lemma scanstring_shorter: "scanstring s = Inr (k, r) \<Longrightarrow> length r < length s"
proof (induction s arbitrary: k r rule: scanstring.induct)
  case 1
  then show ?case by simp
next
  case (2 c s)
  show ?case
  proof (cases "c = 34")
    case True
    with 2 show ?thesis by simp
  next
    case n34: False
    show ?thesis
    proof (cases "c = 92")
      case True
      with n34 2(3) obtain ch rest k' where e: "scan_escape s = Some (ch, rest)"
        and r: "scanstring rest = Inr (k', r)"
        by (auto simp: cons_char_def split: option.splits sum.splits prod.splits)
      from 2(1)[OF n34 True e[symmetric, THEN sym] refl r] scan_escape_shorter[OF e]
      show ?thesis by simp
    next
      case False
      with n34 2(3) obtain k' where c: "\<not> c < 32" and r: "scanstring s = Inr (k', r)"
        by (auto simp: cons_char_def split: if_splits sum.splits prod.splits)
      from 2(2)[OF n34 False c r] show ?thesis by simp
    qed
  qed
qed

lemma length_dropWhile_digit: "length (dropWhile is_digit s) \<le> length s"
  by (rule length_dropWhile_le)

lemma match_integer_shorter: "match_integer s = Some (ds, r) \<Longrightarrow> length r < length s"
  using length_dropWhile_le[of is_digit "tl s"]
  by (auto simp: match_integer_def split: list.splits if_splits)

lemma match_frac_shorter: "match_frac s = (f, r) \<Longrightarrow> length r \<le> length s"
proof (cases s)
  case Nil
  then show "match_frac s = (f, r) \<Longrightarrow> length r \<le> length s" by (simp add: match_frac_def)
next
  case (Cons dot s0)
  assume m: "match_frac s = (f, r)"
  show "length r \<le> length s"
  proof (cases s0)
    case Nil
    with Cons m show ?thesis by (simp add: match_frac_def)
  next
    case (Cons d s1)
    with \<open>s = dot # s0\<close> m length_dropWhile_le[of is_digit s1] show ?thesis
      by (auto simp: match_frac_def split: if_splits)
  qed
qed

lemma match_exp_shorter: "match_exp s = (e, r) \<Longrightarrow> length r \<le> length s"
proof (cases s)
  case Nil
  then show "match_exp s = (e, r) \<Longrightarrow> length r \<le> length s" by (simp add: match_exp_def)
next
  case (Cons c s1)
  assume m: "match_exp s = (e, r)"
  show "length r \<le> length s"
  proof (cases s1)
    case Nil
    with Cons m show ?thesis by (auto simp: match_exp_def split: if_splits)
  next
    case c2: (Cons sg s2)
    show ?thesis
    proof (cases s2)
      case Nil
      with Cons c2 m show ?thesis by (auto simp: match_exp_def split: if_splits)
    next
      case (Cons d s3)
      with \<open>s = c # s1\<close> c2 m length_dropWhile_le[of is_digit s3]
        length_dropWhile_le[of is_digit "d # s3"]
      show ?thesis by (auto simp: match_exp_def split: if_splits)
    qed
  qed
qed

lemma match_number_shorter: "match_number s = Some (v, r) \<Longrightarrow> length r < length s"
proof -
  assume m: "match_number s = Some (v, r)"
  define s0 where "s0 = (case s of c # s' \<Rightarrow> if c = 45 then s' else s | [] \<Rightarrow> s)"
  have l0: "length s0 \<le> length s" by (auto simp: s0_def split: list.splits)
  from m obtain ds s1 where i: "match_integer s0 = Some (ds, s1)"
    by (auto simp: match_number_def s0_def split: list.splits if_splits option.splits)
  obtain f s2 where f: "match_frac s1 = (f, s2)" by (cases "match_frac s1")
  obtain e s3 where e: "match_exp s2 = (e, s3)" by (cases "match_exp s2")
  from m i f e have "r = s3"
    by (auto simp: match_number_def s0_def split: list.splits if_splits)
  with match_integer_shorter[OF i] match_frac_shorter[OF f] match_exp_shorter[OF e] l0
  show ?thesis by simp
qed

definition consumes :: "nat \<Rightarrow> bool" where
  "consumes n =
     (\<forall>s. (\<forall>v r. scan_once n s = Inr (v, r) \<longrightarrow> length r < length s) \<and>
          (\<forall>vs r. array_loop n s = Inr (vs, r) \<longrightarrow> length r < length s) \<and>
          (\<forall>kvs r. object_loop n s = Inr (kvs, r) \<longrightarrow> length r < length s))"

lemma consumes_scan_once:
  assumes "consumes n" "scan_once (Suc n) s = Inr (v, r)"
  shows "length r < length s"
proof (cases s)
  case Nil
  with assms(2) show ?thesis by simp
next
  case (Cons c s0)
  from assms(1) have ia: "\<And>s vs r. array_loop n s = Inr (vs, r) \<Longrightarrow> length r < length s"
    and io: "\<And>s kvs r. object_loop n s = Inr (kvs, r) \<Longrightarrow> length r < length s"
    by (auto simp: consumes_def)
  consider (str) "c = 34" | (obj) "c = 123" | (arr) "c = 91" | (other) "c \<noteq> 34" "c \<noteq> 123" "c \<noteq> 91"
    by blast
  then show ?thesis
  proof cases
    case str
    with assms(2) Cons obtain k where "scanstring s0 = Inr (k, r)"
      by (auto split: sum.splits)
    from scanstring_shorter[OF this] Cons show ?thesis by simp
  next
    case obj
    with assms(2) Cons obtain c1 s1 where sk: "skip_ws s0 = c1 # s1"
      by (auto split: list.splits)
    with assms(2) Cons obj have "r = s1 \<or> (\<exists>kvs. object_loop n s1 = Inr (kvs, r))"
      by (auto split: if_splits sum.splits)
    with io skip_ws_Cons_shorter[OF sk] Cons show ?thesis by fastforce
  next
    case arr
    with assms(2) Cons obtain c1 s1 where sk: "skip_ws s0 = c1 # s1"
      by (auto split: list.splits)
    with assms(2) Cons arr have "r = s1 \<or> (\<exists>vs. array_loop n (c1 # s1) = Inr (vs, r))"
      by (auto split: if_splits sum.splits)
    with ia[of "c1 # s1"] skip_ws_Cons_shorter[OF sk] Cons show ?thesis by fastforce
  next
    case other
    with assms(2) Cons have
      "r = drop 3 s0 \<or> r = drop 4 s0 \<or> r = drop 2 s0 \<or> r = drop 7 s0 \<or> r = drop 8 s0 \<or>
       match_number (c # s0) = Some (v, r)"
      by (auto split: if_splits option.splits)
    with match_number_shorter[of "c # s0" v r] Cons show ?thesis by auto
  qed
qed

lemma consumes_array_loop:
  assumes "consumes n" "array_loop (Suc n) s = Inr (vs, r)"
  shows "length r < length s"
proof -
  from assms(1) have isc: "\<And>s v r. scan_once n s = Inr (v, r) \<Longrightarrow> length r < length s"
    and ia: "\<And>s vs r. array_loop n s = Inr (vs, r) \<Longrightarrow> length r < length s"
    by (auto simp: consumes_def)
  from assms(2) obtain v rest where s1: "scan_once n s = Inr (v, rest)"
    by (auto split: sum.splits)
  with assms(2) obtain c r' where sk: "skip_ws rest = c # r'"
    by (auto split: list.splits)
  with assms(2) s1 have "r = r' \<or> (\<exists>vs'. array_loop n (skip_ws r') = Inr (vs', r))"
    by (auto split: if_splits sum.splits)
  with ia[of "skip_ws r'"] length_skip_ws[of r'] skip_ws_Cons_shorter[OF sk] isc[OF s1]
  show ?thesis by fastforce
qed

lemma consumes_object_loop:
  assumes "consumes n" "object_loop (Suc n) s = Inr (kvs, r)"
  shows "length r < length s"
proof -
  from assms(1) have isc: "\<And>s v r. scan_once n s = Inr (v, r) \<Longrightarrow> length r < length s"
    and io: "\<And>s kvs r. object_loop n s = Inr (kvs, r) \<Longrightarrow> length r < length s"
    by (auto simp: consumes_def)
  from assms(2) obtain key r0 where k: "scanstring s = Inr (key, r0)"
    by (auto split: sum.splits)
  with assms(2) obtain colon r1 where sk0: "skip_ws r0 = colon # r1"
    by (auto split: list.splits)
  with assms(2) k obtain v r2 where s1: "scan_once n (skip_ws r1) = Inr (v, r2)"
    by (auto split: if_splits sum.splits)
  with assms(2) k sk0 obtain c r3 where sk2: "skip_ws r2 = c # r3"
    by (auto split: if_splits list.splits)
  have l3: "length r3 < length s"
    using scanstring_shorter[OF k] skip_ws_Cons_shorter[OF sk0] isc[OF s1]
      length_skip_ws[of r1] skip_ws_Cons_shorter[OF sk2] by simp
  from assms(2) k sk0 s1 sk2 have
    "r = r3 \<or> (\<exists>q r4 ps. skip_ws r3 = q # r4 \<and> object_loop n r4 = Inr (ps, r))"
    by (auto split: if_splits sum.splits list.splits)
  then show ?thesis
  proof
    assume "r = r3" with l3 show ?thesis by simp
  next
    assume "\<exists>q r4 ps. skip_ws r3 = q # r4 \<and> object_loop n r4 = Inr (ps, r)"
    then obtain q r4 ps where "skip_ws r3 = q # r4" "object_loop n r4 = Inr (ps, r)" by blast
    with io[of r4 ps r] skip_ws_Cons_shorter[of r3 q r4] l3 show ?thesis by simp
  qed
qed

lemma consumes_all: "consumes n"
proof (induction n)
  case 0
  show ?case by (simp add: consumes_def)
next
  case (Suc n)
  show ?case
    unfolding consumes_def
    using consumes_scan_once[OF Suc] consumes_array_loop[OF Suc] consumes_object_loop[OF Suc]
    by blast
qed

lemma scan_once_shorter: "scan_once n s = Inr (v, r) \<Longrightarrow> length r < length s"
  and array_loop_shorter: "array_loop n s = Inr (vs, r) \<Longrightarrow> length r < length s"
  and object_loop_shorter: "object_loop n s = Inr (kvs, r) \<Longrightarrow> length r < length s"
  using consumes_all[of n] by (auto simp: consumes_def)

lemma scanstring_error: "scanstring s = Inl e \<Longrightarrow> e = JSONDecodeError"
proof (induction s rule: scanstring.induct)
  case 1
  then show ?case by simp
next
  case (2 c s)
  show ?case
  proof (cases "c = 34")
    case True
    with 2 show ?thesis by simp
  next
    case n34: False
    show ?thesis
    proof (cases "c = 92")
      case True
      show ?thesis
      proof (cases "scan_escape s")
        case None
        with n34 True 2(3) show ?thesis by simp
      next
        case (Some p)
        obtain ch rest where p: "p = (ch, rest)" by (cases p)
        with Some n34 True 2(3) have "scanstring rest = Inl e"
          by (auto simp: cons_char_def split: sum.splits)
        from 2(1)[OF n34 True _ _ this] Some p show ?thesis by simp
      qed
    next
      case False
      show ?thesis
      proof (cases "c < 32")
        case True
        with n34 False 2(3) show ?thesis by simp
      next
        case c: False
        with n34 False 2(3) have "scanstring s = Inl e"
          by (auto simp: cons_char_def split: sum.splits)
        from 2(2)[OF n34 False c this] show ?thesis .
      qed
    qed
  qed
qed

definition fueled :: "nat \<Rightarrow> bool" where
  "fueled n =
     (\<forall>s. (2 * length s < n \<longrightarrow> (\<forall>e. scan_once n s = Inl e \<longrightarrow> e = JSONDecodeError)) \<and>
          (2 * length s + 1 < n \<longrightarrow> (\<forall>e. array_loop n s = Inl e \<longrightarrow> e = JSONDecodeError)) \<and>
          (2 * length s + 1 < n \<longrightarrow> (\<forall>e. object_loop n s = Inl e \<longrightarrow> e = JSONDecodeError)))"

lemma fueled_scan_once:
  assumes "fueled n" "2 * length s < Suc n" "scan_once (Suc n) s = Inl e"
  shows "e = JSONDecodeError"
proof (cases s)
  case Nil
  with assms(3) show ?thesis by simp
next
  case (Cons c s0)
  from assms(1) have ia: "\<And>s e. 2 * length s + 1 < n \<Longrightarrow> array_loop n s = Inl e \<Longrightarrow> e = JSONDecodeError"
    and io: "\<And>s e. 2 * length s + 1 < n \<Longrightarrow> object_loop n s = Inl e \<Longrightarrow> e = JSONDecodeError"
    by (auto simp: fueled_def)
  from assms(2) Cons have l: "2 * length s0 + 1 < n" by simp
  consider (str) "c = 34" | (obj) "c = 123" | (arr) "c = 91" | (other) "c \<noteq> 34" "c \<noteq> 123" "c \<noteq> 91"
    by blast
  then show ?thesis
  proof cases
    case str
    with assms(3) Cons have "scanstring s0 = Inl e" by (auto split: sum.splits)
    then show ?thesis by (rule scanstring_error)
  next
    case obj
    show ?thesis
    proof (cases "skip_ws s0")
      case Nil
      with assms(3) Cons obj show ?thesis by simp
    next
      case sk: (Cons c1 s1)
      with assms(3) \<open>s = c # s0\<close> obj have "e = JSONDecodeError \<or> object_loop n s1 = Inl e"
        by (auto split: if_splits sum.splits)
      with io[of s1 e] skip_ws_Cons_shorter[OF sk] l show ?thesis by auto
    qed
  next
    case arr
    show ?thesis
    proof (cases "skip_ws s0")
      case Nil
      with assms(3) Cons arr show ?thesis by simp
    next
      case sk: (Cons c1 s1)
      with assms(3) \<open>s = c # s0\<close> arr have "array_loop n (c1 # s1) = Inl e"
        by (auto split: if_splits sum.splits)
      with ia[of "c1 # s1" e] skip_ws_Cons_shorter[OF sk] l show ?thesis by auto
    qed
  next
    case other
    with assms(3) Cons show ?thesis by (auto split: if_splits option.splits)
  qed
qed

lemma fueled_array_loop:
  assumes "fueled n" "2 * length s + 1 < Suc n" "array_loop (Suc n) s = Inl e"
  shows "e = JSONDecodeError"
proof -
  from assms(1) have isc: "\<And>s e. 2 * length s < n \<Longrightarrow> scan_once n s = Inl e \<Longrightarrow> e = JSONDecodeError"
    and ia: "\<And>s e. 2 * length s + 1 < n \<Longrightarrow> array_loop n s = Inl e \<Longrightarrow> e = JSONDecodeError"
    by (auto simp: fueled_def)
  from assms(2) have l: "2 * length s < n" by simp
  show ?thesis
  proof (cases "scan_once n s")
    case (Inl e')
    with assms(3) have "e' = e" by simp
    with isc[OF l Inl] show ?thesis by simp
  next
    case (Inr p)
    obtain v rest where p: "p = (v, rest)" by (cases p)
    from scan_once_shorter[of n s v rest] Inr p have lr: "length rest < length s" by simp
    show ?thesis
    proof (cases "skip_ws rest")
      case Nil
      with assms(3) Inr p show ?thesis by simp
    next
      case sk: (Cons c r')
      with assms(3) Inr p have "e = JSONDecodeError \<or> array_loop n (skip_ws r') = Inl e"
        by (auto split: if_splits sum.splits)
      with ia[of "skip_ws r'" e] length_skip_ws[of r'] skip_ws_Cons_shorter[OF sk] lr l
      show ?thesis by auto
    qed
  qed
qed

lemma fueled_object_loop:
  assumes "fueled n" "2 * length s + 1 < Suc n" "object_loop (Suc n) s = Inl e"
  shows "e = JSONDecodeError"
proof -
  from assms(1) have isc: "\<And>s e. 2 * length s < n \<Longrightarrow> scan_once n s = Inl e \<Longrightarrow> e = JSONDecodeError"
    and io: "\<And>s e. 2 * length s + 1 < n \<Longrightarrow> object_loop n s = Inl e \<Longrightarrow> e = JSONDecodeError"
    by (auto simp: fueled_def)
  from assms(2) have l: "2 * length s < n" by simp
  show ?thesis
  proof (cases "scanstring s")
    case (Inl e')
    with assms(3) have "e' = e" by simp
    with scanstring_error[OF Inl] show ?thesis by simp
  next
    case (Inr p)
    obtain key r0 where p: "p = (key, r0)" by (cases p)
    from scanstring_shorter[of s key r0] Inr p have l0: "length r0 < length s" by simp
    show ?thesis
    proof (cases "skip_ws r0")
      case Nil
      with assms(3) Inr p show ?thesis by simp
    next
      case sk0: (Cons colon r1)
      have l1: "length (skip_ws r1) < length s"
        using skip_ws_Cons_shorter[OF sk0] length_skip_ws[of r1] l0 by simp
      show ?thesis
      proof (cases "colon = 58")
        case False
        with assms(3) Inr p sk0 show ?thesis by simp
      next
        case True
        show ?thesis
        proof (cases "scan_once n (skip_ws r1)")
          case (Inl e')
          with assms(3) \<open>scanstring s = Inr p\<close> p sk0 True have "e' = e" by simp
          with isc[OF _ Inl] l1 l show ?thesis by simp
        next
          case s1: (Inr q)
          obtain v r2 where q: "q = (v, r2)" by (cases q)
          from scan_once_shorter[of n "skip_ws r1" v r2] s1 q l1
          have l2: "length r2 < length s" by simp
          show ?thesis
          proof (cases "skip_ws r2")
            case Nil
            with assms(3) \<open>scanstring s = Inr p\<close> p sk0 True s1 q show ?thesis by simp
          next
            case sk2: (Cons c r3)
            from skip_ws_Cons_shorter[OF sk2] l2 have l3: "length r3 < length s" by simp
            show ?thesis
            proof (cases "skip_ws r3")
              case Nil
              with assms(3) \<open>scanstring s = Inr p\<close> p sk0 True s1 q sk2 show ?thesis
                by (auto split: if_splits)
            next
              case sk3: (Cons q' r4)
              with assms(3) \<open>scanstring s = Inr p\<close> p sk0 True s1 q sk2
              have "e = JSONDecodeError \<or> object_loop n r4 = Inl e"
                by (auto split: if_splits sum.splits)
              with io[of r4 e] skip_ws_Cons_shorter[OF sk3] l3 l show ?thesis by auto
            qed
          qed
        qed
      qed
    qed
  qed
qed

lemma fueled_all: "fueled n"
proof (induction n)
  case 0
  show ?case by (simp add: fueled_def)
next
  case (Suc n)
  show ?case
    unfolding fueled_def
    using fueled_scan_once[OF Suc] fueled_array_loop[OF Suc] fueled_object_loop[OF Suc]
    by blast
qed

lemma loads_error: "loads s = Inl e \<Longrightarrow> e = JSONDecodeError"
proof -
  assume a: "loads s = Inl e"
  have l: "2 * length (skip_ws s) < Suc (2 * length s)" using length_skip_ws[of s] by simp
  show ?thesis
  proof (cases "scan_once (Suc (2 * length s)) (skip_ws s)")
    case (Inl e')
    with a have "e' = e" by (simp add: loads_def)
    with fueled_all[of "Suc (2 * length s)"] l Inl show ?thesis by (auto simp: fueled_def)
  next
    case (Inr p)
    with a show ?thesis by (auto simp: loads_def split: prod.splits if_splits)
  qed
qed

subsection \<open>Concrete messages and a started worker\<close>



definition complete_msg :: mcp_message where
  "complete_msg = \<lparr>msg_type = JString (ustr ''task_complete''), msg_id = JString (ustr ''w1_7''),
     msg_timestamp = JString (ustr ''2025-10-09T10:00:02''),
     payload = JObject [(ustr ''task_id'', JString (ustr ''t1'')),
                        (ustr ''files_modified'', JArray [JString (ustr ''a.py''), JString (ustr ''b.py''), JString (ustr ''a.py'')]),
                        (ustr ''exit'', JInt (-1)), (ustr ''note'', JString [233, 10, 128512])]\<rparr>"


lemma to_json_complete_msg: "to_json complete_msg = ustr ''{\"type\": \"task_complete\", \"id\": \"w1_7\", \"timestamp\": \"2025-10-09T10:00:02\", \"payload\": {\"task_id\": \"t1\", \"files_modified\": [\"a.py\", \"b.py\", \"a.py\"], \"exit\": -1, \"note\": \"'' @ [92] @ ustr ''u00e9'' @ [92] @ ustr ''n'' @ [92] @ ustr ''ud83d'' @ [92] @ ustr ''ude00\"}}''"
  by (simp add: to_json_def complete_msg_def ustr_def encode_basestring_ascii_def escape_char_def
      hex4_def hex_digit_def int_repr_def digits.simps)

definition now0 :: ustring where "now0 = ustr ''2025-10-09T10:00:00''"

definition worker1 :: supervisor where
  "worker1 = fst (start (new_supervisor (ustr ''w1'') ''codex'' 1) now0 True)"

lemma worker1_fields:
  "process worker1" "running worker1" "stdout_reader worker1" "message_id_counter worker1 = 1"
  "pending_requests worker1 = None" "broadcasts worker1 = []" "worker_id worker1 = ustr ''w1''"
  "files_modified (metrics worker1) = []" "tasks_completed (metrics worker1) = 0"
  "tasks_failed (metrics worker1) = 0" "tools_used (metrics worker1) = []"
  by (simp_all add: worker1_def start_def send_message_def new_supervisor_def Let_def)

lemmas fuel_numeral =
  scan_once.simps(2)[of "pred_numeral k", folded numeral_eq_Suc]
  scan_once.simps(3)[of "pred_numeral k", folded numeral_eq_Suc]
  array_loop.simps(2)[of "pred_numeral k", folded numeral_eq_Suc]
  object_loop.simps(2)[of "pred_numeral k", folded numeral_eq_Suc]
  for k

lemmas json_eval = fuel_numeral ustr_def loads_def skip_ws_def is_ws_def match_number_def match_integer_def
  match_frac_def match_exp_def digits_value_def is_digit_def cons_char_def scan_escape_def
  backslash_def decode_uXXXX_def hex_value_def dict_of_pairs_def

lemmas message_eval = from_json_def message_of_dict_def getitem_def strip_def is_space_def
  is_type_def dict_get_def py_iter_def hashable_def

lemma handle_message_extends:
  "\<exists>added. files_modified (metrics (fst (handle_message self m)))
            = files_modified (metrics self) @ added \<and>
          distinct added \<and> set added \<inter> set (files_modified (metrics self)) = {}"
proof -
  have "\<exists>added. append_new xs fs = xs @ added \<and> distinct added \<and> set added \<inter> set xs = {}"
    for xs fs :: "json list"
    using append_new_extends[of xs fs] by auto
  then show ?thesis
    by (simp add: handle_message_files files_on_task_complete split: sum.splits)
qed

lemma handle_all_distinct:
  "distinct (files_modified (metrics self)) \<Longrightarrow>
     distinct (files_modified (metrics (foldl (\<lambda>s m. fst (handle_message s m)) self ms)))"
  by (induction ms arbitrary: self) (simp_all add: handle_message_distinct)

definition complete_line :: ustring where
  "complete_line = ustr ''{\"type\": \"task_complete\", \"id\": \"w1_7\", \"timestamp\": \"2025-10-09T10:00:02\", \"payload\": {\"task_id\": \"t1\", \"files_modified\": [\"a.py\", \"b.py\", \"a.py\"]}}'' @ [10]"

lemma from_json_complete_line:
  "from_json (strip complete_line) =
     Inr \<lparr>msg_type = JString (ustr ''task_complete''), msg_id = JString (ustr ''w1_7''),
          msg_timestamp = JString (ustr ''2025-10-09T10:00:02''),
          payload = JObject [(ustr ''task_id'', JString (ustr ''t1'')),
             (ustr ''files_modified'',
              JArray [JString (ustr ''a.py''), JString (ustr ''b.py''), JString (ustr ''a.py'')])]\<rparr>"
  by (simp add: complete_line_def json_eval message_eval)

definition task1 :: json where
  "task1 = JObject [(ustr ''task_id'', JString (ustr ''t1'')),
                    (ustr ''scope_touch'', JArray [JString (ustr ''src/'')])]"

definition task_error_line :: ustring where
  "task_error_line = ustr ''{\"type\": \"task_error\", \"id\": \"w1_9\", \"timestamp\": \"2025-10-09T10:00:03\", \"payload\": {\"task_id\": \"t1\", \"error\": \"boom\"}}'' @ [10]"

lemma from_json_task_error_line:
  "from_json (strip task_error_line) =
     Inr \<lparr>msg_type = JString (ustr ''task_error''), msg_id = JString (ustr ''w1_9''),
          msg_timestamp = JString (ustr ''2025-10-09T10:00:03''),
          payload = JObject [(ustr ''task_id'', JString (ustr ''t1'')),
                             (ustr ''error'', JString (ustr ''boom''))]\<rparr>"
  by (simp add: task_error_line_def json_eval message_eval)


definition matching_response_line :: ustring where
  "matching_response_line = ustr ''{\"type\": \"tools_response\", \"id\": \"w1_3\", \"timestamp\": \"2025-10-09T10:00:04\", \"payload\": {\"request_id\": \"list_tools_1\", \"tools\": [{\"name\": \"grep\"}]}}'' @ [10]"



lemma from_json_matching_response_line:
  "from_json (strip matching_response_line) =
     Inr \<lparr>msg_type = JString (ustr ''tools_response''), msg_id = JString (ustr ''w1_3''),
          msg_timestamp = JString (ustr ''2025-10-09T10:00:04''),
          payload = JObject [(ustr ''request_id'', JString (ustr ''list_tools_1'')),
                             (ustr ''tools'', JArray [JObject [(ustr ''name'', JString (ustr ''grep''))]])]\<rparr>"
  by (simp add: matching_response_line_def json_eval message_eval)

lemma list_tools_answered:
  "snd (list_tools worker1 now0 [matching_response_line]) =
     Inr [\<lparr>tool_name_of = JString (ustr ''grep''), tool_description = JString [],
           parameters = JObject [], returns = JNull, examples = JArray []\<rparr>] \<and>
   pending_at (fst (list_tools worker1 now0 [matching_response_line])) (ustr ''list_tools_1'') = None"
proof -
  let ?m = "\<lparr>msg_type = JString (ustr ''tools_response''), msg_id = JString (ustr ''w1_3''),
          msg_timestamp = JString (ustr ''2025-10-09T10:00:04''),
          payload = JObject [(ustr ''request_id'', JString (ustr ''list_tools_1'')),
                             (ustr ''tools'', JArray [JObject [(ustr ''name'', JString (ustr ''grep''))]])]\<rparr>"
  have n: "matching_response_line \<noteq> []" by (simp add: matching_response_line_def)
  have h: "handle_message self ?m = on_tools_response self ?m" for self
    by (simp add: handle_message_def is_type_def ustr_def)
  have r: "pending_requests self = Some [ustr ''list_tools_1'' \<mapsto> Pending] \<Longrightarrow>
      on_tools_response self ?m =
        (self\<lparr>pending_requests := Some [ustr ''list_tools_1'' \<mapsto>
            Resolved (JArray [JObject [(ustr ''name'', JString (ustr ''grep''))]])]\<rparr>, None)" for self
    by (simp add: on_tools_response_def dict_get_def hashable_def has_len_def ustr_def)
  have step: "running self \<Longrightarrow> pending_requests self = Some [ustr ''list_tools_1'' \<mapsto> Pending] \<Longrightarrow>
      stdout_loop self now0 [matching_response_line] =
        (self\<lparr>pending_requests := Some [ustr ''list_tools_1'' \<mapsto>
            Resolved (JArray [JObject [(ustr ''name'', JString (ustr ''grep''))]])]\<rparr>, [])" for self
    using n by (simp add: from_json_matching_response_line h r)
  have t: "tools_of [JObject [(ustr ''name'', JString (ustr ''grep''))]] =
      Inr [\<lparr>tool_name_of = JString (ustr ''grep''), tool_description = JString [],
           parameters = JObject [], returns = JNull, examples = JArray []\<rparr>]"
    by (simp add: tool_of_def dict_get_def ustr_def)
  have rid: "ustr ''list_tools_'' @ digits (Suc 0) = ustr ''list_tools_1''"
    by (simp add: digits.simps ustr_def)
  show ?thesis
    by (simp add: list_tools_def send_message_def Let_def read_stdout_def worker1_fields
        rid step py_iter_def t pending_at_def del: stdout_loop.simps tools_of.simps)
qed

subsection \<open>The codec round trip\<close>



subsection \<open>No duplicate in files_modified\<close>

text \<open>
  Claim C10. The list \<open>files_modified\<close> of the metrics never holds a value twice. From
  a new supervisor, after any sequence of messages handled one after the other, and
  after the read loop has gone through any lines of a started worker, its elements
  are pairwise distinct; and handling one message appends to the list only values
  that were not in it, each once. Membership is equality of decoded values, which
  for file names (strings) is Python's \<open>==\<close>.
\<close>

theorem files_modified_distinct:
  "distinct (files_modified (metrics
      (foldl (\<lambda>s m. fst (handle_message s m)) (new_supervisor wid wtype conc) ms))) \<and>
   distinct (files_modified (metrics
      (fst (read_stdout (fst (start (new_supervisor wid wtype conc) now True)) now' lines)))) \<and>
   (\<exists>added. files_modified (metrics (fst (handle_message self m)))
              = files_modified (metrics self) @ added \<and>
            distinct added \<and> set added \<inter> set (files_modified (metrics self)) = {})"
proof (intro conjI)
  show "distinct (files_modified (metrics
      (foldl (\<lambda>s m. fst (handle_message s m)) (new_supervisor wid wtype conc) ms)))"
    by (rule handle_all_distinct) (simp add: new_supervisor_def)
  have "files_modified (metrics (fst (start (new_supervisor wid wtype conc) now True))) = []"
    by (simp add: start_def send_message_def new_supervisor_def Let_def)
  then show "distinct (files_modified (metrics
      (fst (read_stdout (fst (start (new_supervisor wid wtype conc) now True)) now' lines))))"
    by (simp add: read_stdout_def stdout_loop_distinct)
  show "\<exists>added. files_modified (metrics (fst (handle_message self m)))
              = files_modified (metrics self) @ added \<and>
            distinct added \<and> set added \<inter> set (files_modified (metrics self)) = {}"
    by (rule handle_message_extends)
qed

theorem files_modified_distinct_witness:
  "files_modified (metrics (fst (handle_message worker1
      \<lparr>msg_type = JString (ustr ''task_complete''), msg_id = JString (ustr ''w1_7''),
       msg_timestamp = JString (ustr ''2025-10-09T10:00:02''),
       payload = JObject [(ustr ''task_id'', JString (ustr ''t1'')),
          (ustr ''files_modified'',
           JArray [JString (ustr ''a.py''), JString (ustr ''b.py''), JString (ustr ''a.py'')])]\<rparr>)))
     = [JString (ustr ''a.py''), JString (ustr ''b.py'')] \<and>
   distinct (files_modified (metrics (fst (read_stdout worker1 now0 [complete_line, complete_line]))))"
proof -
  have "files_modified (metrics (fst (handle_message worker1
      \<lparr>msg_type = JString (ustr ''task_complete''), msg_id = JString (ustr ''w1_7''),
       msg_timestamp = JString (ustr ''2025-10-09T10:00:02''),
       payload = JObject [(ustr ''task_id'', JString (ustr ''t1'')),
          (ustr ''files_modified'',
           JArray [JString (ustr ''a.py''), JString (ustr ''b.py''), JString (ustr ''a.py'')])]\<rparr>)))
     = [JString (ustr ''a.py''), JString (ustr ''b.py'')]"
    by (simp add: handle_message_def on_task_complete_def worker1_fields message_eval Let_def ustr_def)
  moreover have "distinct (files_modified (metrics (fst (read_stdout worker1 now0 [complete_line, complete_line]))))"
    using files_modified_distinct[of "ustr ''w1''" "''codex''" 1 "[]" now0 now0 "[complete_line, complete_line]"]
    by (simp add: worker1_def)
  ultimately show ?thesis by simp
qed

subsection \<open>Lines that are not messages\<close>

text \<open>
  A line that is not JSON is logged and the loop goes on
  (\<open>undecodable_line_becomes_log\<close> above); the description is the line without the
  white space around it.
\<close>

lemma chatter_line_logged:
  "loads (strip (ustr ''  build ok '' @ [10])) = Inl JSONDecodeError \<and>
   snd (read_stdout worker1 now0 [ustr ''  build ok '' @ [10]]) = [] \<and>
   stdout_reader (fst (read_stdout worker1 now0 [ustr ''  build ok '' @ [10]])) \<and>
   broadcasts (fst (read_stdout worker1 now0 [ustr ''  build ok '' @ [10]])) =
     [BroadcastActivity \<lparr>activity_worker_id = ustr ''w1'', timestamp = JString now0,
        activity_type = ''log'', tool_name = JNull, activity_description = JString (ustr ''build ok''),
        file_path = JNull, progress = JNull\<rparr>]"
proof -
  have s: "strip (ustr ''  build ok '' @ [10]) = ustr ''build ok''"
    by (simp add: strip_def is_space_def ustr_def)
  have a: "loads (ustr ''build ok'') = Inl JSONDecodeError" by (simp add: json_eval)
  have c: "ustr ''  build ok '' @ [10] \<noteq> []" by (simp add: ustr_def)
  from a have f: "from_json (ustr ''build ok'') = Inl JSONDecodeError" by (simp add: from_json_def)
  show ?thesis
    using a c f by (simp add: s read_stdout_def worker1_fields on_activity_def log_line_def Let_def)
qed

text \<open>
  Claim C5, at a line that is JSON but not a message. The line \<open>{}\<close> decodes to a
  dict without the key \<open>type\<close>: \<open>from_json\<close> raises KeyError, which the clause for
  \<open>json.JSONDecodeError\<close> does not catch; the general clause leaves the loop. The line
  that follows is never read, the reader has ended and nothing was handed to the
  broadcaster. The line \<open>42\<close> ends the same way with TypeError.
\<close>

theorem malformed_message_stops_reader:
  "from_json (strip (ustr ''{}'' @ [10])) = Inl (KeyError ''type'') \<and>
   from_json (strip (ustr ''42'' @ [10])) = Inl TypeError \<and>
   snd (read_stdout worker1 now0 [ustr ''{}'' @ [10], ustr ''later'' @ [10]]) = [ustr ''later'' @ [10]] \<and>
   stdout_reader (fst (read_stdout worker1 now0 [ustr ''{}'' @ [10], ustr ''later'' @ [10]])) = False \<and>
   broadcasts (fst (read_stdout worker1 now0 [ustr ''{}'' @ [10], ustr ''later'' @ [10]])) = []"
proof -
  have a: "from_json (strip (ustr ''{}'' @ [10])) = Inl (KeyError ''type'')"
    by (simp add: json_eval message_eval)
  have b: "from_json (strip (ustr ''42'' @ [10])) = Inl TypeError"
    by (simp add: json_eval message_eval)
  have c: "ustr ''{}'' @ [10] \<noteq> []" by (simp add: ustr_def)
  show ?thesis
    using a b c by (simp add: read_stdout_def worker1_fields)
qed

subsection \<open>execute_task and the outcome of the task\<close>

text \<open>
  Claim C3, at a task that fails. \<open>execute_task\<close> sends EXECUTE_TASK with the task id
  and returns after its sleep with \<open>success = True\<close> and the task's own \<open>scope_touch\<close> as
  \<open>files_modified\<close>: when the worker answered TASK_ERROR for that task during the sleep
  (the failure is counted and broadcast), and when the worker sent nothing at all.
\<close>

theorem execute_task_ignores_outcome:
  "snd (execute_task worker1 now0 task1 [task_error_line]) =
     Inr (JObject [(ustr ''success'', JBool True), (ustr ''task_id'', JString (ustr ''t1'')),
                   (ustr ''files_modified'', JArray [JString (ustr ''src/'')]),
                   (ustr ''worker_id'', JString (ustr ''w1''))]) \<and>
   tasks_failed (metrics (fst (execute_task worker1 now0 task1 [task_error_line]))) = 1 \<and>
   tasks_completed (metrics (fst (execute_task worker1 now0 task1 [task_error_line]))) = 0 \<and>
   broadcasts (fst (execute_task worker1 now0 task1 [task_error_line])) =
     [BroadcastTaskFailed (ustr ''w1'') (JString (ustr ''t1'')) (JString (ustr ''boom''))] \<and>
   snd (execute_task worker1 now0 task1 []) =
     Inr (JObject [(ustr ''success'', JBool True), (ustr ''task_id'', JString (ustr ''t1'')),
                   (ustr ''files_modified'', JArray [JString (ustr ''src/'')]),
                   (ustr ''worker_id'', JString (ustr ''w1''))])"
proof -
  have n: "task_error_line \<noteq> []" by (simp add: task_error_line_def)
  have h: "handle_message self
      \<lparr>msg_type = JString (ustr ''task_error''), msg_id = JString (ustr ''w1_9''),
       msg_timestamp = JString (ustr ''2025-10-09T10:00:03''),
       payload = JObject [(ustr ''task_id'', JString (ustr ''t1'')),
                          (ustr ''error'', JString (ustr ''boom''))]\<rparr>
     = (self\<lparr>metrics := (metrics self)\<lparr>tasks_failed := tasks_failed (metrics self) + 1\<rparr>,
             broadcasts := broadcasts self
                @ [BroadcastTaskFailed (worker_id self) (JString (ustr ''t1'')) (JString (ustr ''boom''))]\<rparr>,
        None)" for self
    by (simp add: handle_message_def on_task_error_def message_eval ustr_def)
  show ?thesis
    using n
    apply (simp add: execute_task_def task1_def dict_get_def send_message_def Let_def
        read_stdout_def worker1_fields from_json_task_error_line h)
    by (simp_all add: ustr_def)
qed

subsection \<open>list_tools without an answer\<close>



text \<open>
  On a supervisor that was never started the request is stored before the send
  raises, outside the \<open>try\<close>: the entry stays. With a matching answer the tools are
  returned and the entry is removed.
\<close>

lemma list_tools_unstarted_leaks:
  "\<not> process self \<Longrightarrow>
     snd (list_tools self now inbound) = Inl (RuntimeError ''Worker process not started'') \<and>
     pending_at (fst (list_tools self now inbound))
        (ustr ''list_tools_'' @ digits (message_id_counter self)) = Some Pending"
  by (simp add: list_tools_def send_message_def Let_def pending_at_def)

end
